theory Spec2Isabelle
  imports Complex_Main "HOL-Library.AList" "HOL-Library.Char_ord" "HOL-Library.List_Lexorder"
begin

section \<open>Python values that flow through \<open>GetHearthstoneData/__init__.py\<close>\<close>

text \<open>
  The function works on whatever \<open>json.loads\<close> and \<open>response.json()\<close> return, so the
  data is modelled as the Python objects a JSON document parses to. A \<open>dict\<close> keeps its
  items in insertion order; its keys are distinct. \<open>JFloat q\<close> stands for the finite
  double whose exact value is the rational \<open>q\<close> (the values \<open>nan\<close>, \<open>inf\<close> and
  \<open>-0.0\<close> are not represented). A \<open>str\<close> is a list of characters, one \<open>char\<close> per
  code point, so the strs of the model are those with code points below 256.
\<close>

datatype json =
    JNull
  | JBool bool
  | JInt int
  | JFloat rat
  | JStr string
  | JArr "json list"
  | JObj "(string \<times> json) list"

text \<open>
  Exceptions are values. \<open>StorageError\<close> stands for whatever the blob client raises;
  \<open>NotModelled\<close> is no exception of Python: it marks the two places where the model
  does not say what the program does, the sort of keys that are all lists (see
  \<open>sorted_by_avg_placement\<close>) and the upper-casing of two characters (see \<open>py_upper\<close>).
\<close>

datatype py_error =
    TypeError
  | AttributeError
  | ValueError
  | KeyError
  | OverflowError
  | StorageError
  | NotModelled

text \<open>Sequencing: the first exception ends the computation.\<close>

definition and_then :: "'e + 'a \<Rightarrow> ('a \<Rightarrow> 'e + 'b) \<Rightarrow> 'e + 'b" where
  "and_then m f = (case m of Inl e \<Rightarrow> Inl e | Inr x \<Rightarrow> f x)"

text \<open>Truth value of an object, as \<open>if x:\<close> and \<open>not x\<close> test it.\<close>

fun truthy :: "json \<Rightarrow> bool" where
  "truthy JNull = False"
| "truthy (JBool b) = b"
| "truthy (JInt n) = (n \<noteq> 0)"
| "truthy (JFloat q) = (q \<noteq> 0)"
| "truthy (JStr s) = (s \<noteq> [])"
| "truthy (JArr xs) = (xs \<noteq> [])"
| "truthy (JObj kv) = (kv \<noteq> [])"

text \<open>\<open>for x in obj\<close>: a list yields its elements, a dict its keys, a str its characters.\<close>

fun py_iter :: "json \<Rightarrow> py_error + json list" where
  "py_iter (JArr xs) = Inr xs"
| "py_iter (JObj kv) = Inr (map (\<lambda>(k, v). JStr k) kv)"
| "py_iter (JStr s) = Inr (map (\<lambda>c. JStr [c]) s)"
| "py_iter _ = Inl TypeError"

text \<open>\<open>obj.get(key)\<close>: only a dict has the method; a missing key gives \<open>None\<close> here.\<close>

fun dict_get :: "json \<Rightarrow> string \<Rightarrow> py_error + json option" where
  "dict_get (JObj kv) key = Inr (map_of kv key)"
| "dict_get _ key = Inl AttributeError"

text \<open>\<open>obj.get(key, default)\<close>.\<close>

definition dict_get_default :: "json \<Rightarrow> string \<Rightarrow> json \<Rightarrow> py_error + json" where
  "dict_get_default obj key dflt =
     (case dict_get obj key of
        Inl e \<Rightarrow> Inl e
      | Inr None \<Rightarrow> Inr dflt
      | Inr (Some v) \<Rightarrow> Inr v)"

text \<open>\<open>sub in s\<close> on two strs: \<open>sub\<close> occurs in \<open>s\<close> as a contiguous piece.\<close>

fun str_contains :: "string \<Rightarrow> string \<Rightarrow> bool" where
  "str_contains sub [] = (sub = [])"
| "str_contains sub (c # cs) = (take (length sub) (c # cs) = sub \<or> str_contains sub cs)"

text \<open>\<open>key in obj\<close> for a str \<open>key\<close>.\<close>

fun py_contains :: "string \<Rightarrow> json \<Rightarrow> py_error + bool" where
  "py_contains key (JObj kv) = Inr (key \<in> set (map fst kv))"
| "py_contains key (JStr s) = Inr (str_contains key s)"
| "py_contains key (JArr xs) = Inr (JStr key \<in> set xs)"
| "py_contains key _ = Inl TypeError"

text \<open>\<open>obj[key]\<close> for a str \<open>key\<close>.\<close>

fun py_getitem :: "json \<Rightarrow> string \<Rightarrow> py_error + json" where
  "py_getitem (JObj kv) key = (case map_of kv key of None \<Rightarrow> Inl KeyError | Some v \<Rightarrow> Inr v)"
| "py_getitem _ key = Inl TypeError"

text \<open>
  Keys of a Python dict. Numbers that compare equal hash equal, so \<open>1\<close>, \<open>1.0\<close> and
  \<open>True\<close> are one key; lists and dicts are unhashable.
\<close>

datatype hkey = KNone | KNum rat | KStr string

fun hkey_of :: "json \<Rightarrow> py_error + hkey" where
  "hkey_of JNull = Inr KNone"
| "hkey_of (JBool b) = Inr (KNum (if b then 1 else 0))"
| "hkey_of (JInt n) = Inr (KNum (of_int n))"
| "hkey_of (JFloat q) = Inr (KNum q)"
| "hkey_of (JStr s) = Inr (KStr s)"
| "hkey_of (JArr xs) = Inl TypeError"
| "hkey_of (JObj kv) = Inl TypeError"

type_synonym card_map = "(hkey \<times> json) list"

section \<open>Strings: \<open>str(n)\<close>, \<open>.2f\<close>, \<open>upper\<close>, \<open>replace\<close>\<close>

definition digit_char :: "nat \<Rightarrow> char" where
  "digit_char d = ''0123456789'' ! d"

text \<open>Decimal rendering of a natural number, as an f-string renders \<open>{i+1}\<close>.\<close>

function str_nat :: "nat \<Rightarrow> string" where
  "str_nat n = (if n < 10 then [digit_char n] else str_nat (n div 10) @ [digit_char (n mod 10)])"
  by pat_completeness auto
termination
  by (relation "measure (\<lambda>n. n)") auto

declare str_nat.simps [simp del]

text \<open>
  Line 101: \<open>{f"{i+1}st": val for i, val in enumerate(...)}\<close>. The comprehension
  stores item after item; a key that is already there keeps its place and takes the new
  value.
\<close>

definition placement_label :: "nat \<Rightarrow> string" where
  "placement_label i = str_nat (i + 1) @ ''st''"

fun placement_items :: "(nat \<times> json) list \<Rightarrow> (string \<times> json) list \<Rightarrow> (string \<times> json) list"
where
  "placement_items [] acc = acc"
| "placement_items ((i, val) # rest) acc =
     placement_items rest (AList.update (placement_label i) val acc)"

definition placement_dist :: "json \<Rightarrow> py_error + (string \<times> json) list" where
  "placement_dist trinket =
     and_then (dict_get_default trinket ''final_placement_distribution'' (JArr [])) (\<lambda>d.
     and_then (py_iter d) (\<lambda>vals.
       Inr (placement_items (enumerate 0 vals) [])))"

text \<open>
  \<open>float(n)\<close> for an int, which the \<open>f\<close> format applies first: the nearest double,
  ties to the even mantissa, \<open>OverflowError\<close> beyond the range of a double.
\<close>

function bit_length :: "nat \<Rightarrow> nat" where
  "bit_length n = (if n = 0 then 0 else Suc (bit_length (n div 2)))"
  by pat_completeness auto
termination
  by (relation "measure (\<lambda>n. n)") auto

declare bit_length.simps [simp del]

definition int_to_float :: "int \<Rightarrow> py_error + rat" where
  "int_to_float n =
     (let a = nat \<bar>n\<bar>;
          k = bit_length a - 53;
          q = a div 2 ^ k;
          r = a mod 2 ^ k;
          q' = (if 2 ^ k < 2 * r \<or> (2 * r = 2 ^ k \<and> odd q) then q + 1 else q);
          v = q' * 2 ^ k
      in if 2 ^ 1024 \<le> v then Inl OverflowError
         else Inr (if n < 0 then - of_nat v else of_nat v))"

text \<open>Rounding to the nearest integer, ties to even, as the \<open>f\<close> format rounds.\<close>

definition round_half_even :: "rat \<Rightarrow> int" where
  "round_half_even x =
     (let f = \<lfloor>x\<rfloor>; d = x - of_int f
      in if d < 1 / 2 then f
         else if 1 / 2 < d then f + 1
         else if even f then f else f + 1)"

text \<open>\<open>f"{x:.2f}"\<close> for a float \<open>x\<close>.\<close>

definition format_2f :: "rat \<Rightarrow> string" where
  "format_2f q =
     (let h = nat (round_half_even (\<bar>q\<bar> * 100))
      in (if q < 0 then ''-'' else [])
         @ str_nat (h div 100) @ ''.''
         @ [digit_char (h mod 100 div 10), digit_char (h mod 10)])"

text \<open>\<open>f"{x:.2f}"\<close> for any object: a bool is an int, a str has no \<open>f\<close> format.\<close>

fun py_format_2f :: "json \<Rightarrow> py_error + string" where
  "py_format_2f (JFloat q) = Inr (format_2f q)"
| "py_format_2f (JInt n) =
     and_then (int_to_float n) (\<lambda>q. Inr (format_2f q))"
| "py_format_2f (JBool b) = Inr (format_2f (if b then 1 else 0))"
| "py_format_2f (JStr s) = Inl ValueError"
| "py_format_2f _ = Inl TypeError"

text \<open>
  \<open>s.upper()\<close> replaces every character by its uppercase form. Among the code points
  below 256 the lowercase letters that have one are \<open>a\<close> to \<open>z\<close> and the accented
  letters U+00E0 to U+00FE without the division sign U+00F7; each goes to the letter 32
  code points below it. The sharp s, U+00DF, becomes the two letters \<open>SS\<close>. Every
  other character is left as it is, but for the micro sign U+00B5 and the y with
  diaeresis U+00FF: their uppercase forms, U+039C and U+0178, are not characters of the
  model, so the result is \<open>None\<close> for a str that holds one of them.
\<close>

definition lowercase_letters :: string where
  "lowercase_letters =
     ''abcdefghijklmnopqrstuvwxyz'' @
     [
        CHR 0xE0, CHR 0xE1, CHR 0xE2, CHR 0xE3, CHR 0xE4, CHR 0xE5, CHR 0xE6, CHR 0xE7,
        CHR 0xE8, CHR 0xE9, CHR 0xEA, CHR 0xEB, CHR 0xEC, CHR 0xED, CHR 0xEE, CHR 0xEF,
        CHR 0xF0, CHR 0xF1, CHR 0xF2, CHR 0xF3, CHR 0xF4, CHR 0xF5, CHR 0xF6, CHR 0xF8,
        CHR 0xF9, CHR 0xFA, CHR 0xFB, CHR 0xFC, CHR 0xFD, CHR 0xFE]"

definition uppercase_letters :: string where
  "uppercase_letters =
     ''ABCDEFGHIJKLMNOPQRSTUVWXYZ'' @
     [
        CHR 0xC0, CHR 0xC1, CHR 0xC2, CHR 0xC3, CHR 0xC4, CHR 0xC5, CHR 0xC6, CHR 0xC7,
        CHR 0xC8, CHR 0xC9, CHR 0xCA, CHR 0xCB, CHR 0xCC, CHR 0xCD, CHR 0xCE, CHR 0xCF,
        CHR 0xD0, CHR 0xD1, CHR 0xD2, CHR 0xD3, CHR 0xD4, CHR 0xD5, CHR 0xD6, CHR 0xD8,
        CHR 0xD9, CHR 0xDA, CHR 0xDB, CHR 0xDC, CHR 0xDD, CHR 0xDE]"

definition char_upper :: "char \<Rightarrow> string option" where
  "char_upper c =
     (if c = CHR 0xB5 \<or> c = CHR 0xFF then None
      else if c = CHR 0xDF then Some ''SS''
      else case map_of (zip lowercase_letters uppercase_letters) c of
             Some u \<Rightarrow> Some [u]
           | None \<Rightarrow> Some [c])"

fun upper :: "string \<Rightarrow> string option" where
  "upper [] = Some []"
| "upper (c # cs) =
     (case char_upper c of
        None \<Rightarrow> None
      | Some u \<Rightarrow> (case upper cs of None \<Rightarrow> None | Some rest \<Rightarrow> Some (u @ rest)))"

fun py_upper :: "json \<Rightarrow> py_error + string" where
  "py_upper (JStr s) = (case upper s of None \<Rightarrow> Inl NotModelled | Some u \<Rightarrow> Inr u)"
| "py_upper _ = Inl AttributeError"

text \<open>
  \<open>s.replace(old, new)\<close>: every occurrence of \<open>old\<close>, found from the left and not
  overlapping, becomes \<open>new\<close>. An empty \<open>old\<close> matches before every character and at
  the end.
\<close>

function replace_from :: "string \<Rightarrow> string \<Rightarrow> string \<Rightarrow> string" where
  "replace_from old new [] = []"
| "replace_from old new (c # cs) =
     (if old \<noteq> [] \<and> take (length old) (c # cs) = old
      then new @ replace_from old new (drop (length old) (c # cs))
      else c # replace_from old new cs)"
  by pat_completeness auto
termination
  by (relation "measure (\<lambda>(old, new, s). length s)") auto

definition replace :: "string \<Rightarrow> string \<Rightarrow> string \<Rightarrow> string" where
  "replace s old new =
     (if old = [] then new @ concat (map (\<lambda>c. c # new) s) else replace_from old new s)"

text \<open>The two characters of the Python literal \<open>"\\n"\<close>: a backslash and an \<open>n\<close>.\<close>

definition backslash_n :: string where
  "backslash_n = [CHR 0x5C, CHR ''n'']"

text \<open>Line 108, the chain of five \<open>replace\<close> calls on the card's text.\<close>

definition strip_markup :: "string \<Rightarrow> string" where
  "strip_markup s =
     replace (replace (replace (replace (replace s backslash_n '' '') ''<b>'' []) ''</b>'' [])
       ''<i>'' []) ''</i>'' []"

fun py_strip_markup :: "json \<Rightarrow> py_error + string" where
  "py_strip_markup (JStr s) = Inr (strip_markup s)"
| "py_strip_markup _ = Inl AttributeError"

definition none_to_null :: "json option \<Rightarrow> json" where
  "none_to_null v = (case v of None \<Rightarrow> JNull | Some x \<Rightarrow> x)"

section \<open>Lines 101 to 111: one Processed Trinket\<close>

text \<open>
  The dict \<open>combined_data\<close>, with its keys in the order of the source. The right-hand
  sides are evaluated in that order, after \<open>placement_dist\<close>; the first one that raises
  ends the run.
\<close>

definition combined_data :: "json \<Rightarrow> json \<Rightarrow> json \<Rightarrow> py_error + json" where
  "combined_data card_info trinket dbf_id =
     and_then (placement_dist trinket) (\<lambda>pd.
     and_then (dict_get card_info ''name'') (\<lambda>name.
     and_then (dict_get trinket ''avg_final_placement'') (\<lambda>avg.
     and_then (dict_get_default trinket ''pick_rate'' (JInt 0)) (\<lambda>pr.
     and_then (py_format_2f pr) (\<lambda>pick_rate.
     and_then (dict_get_default trinket ''tier'' (JStr ''N/A'')) (\<lambda>tr.
     and_then (py_upper tr) (\<lambda>tier.
     and_then (dict_get trinket ''group'') (\<lambda>grp.
     and_then (dict_get_default card_info ''text'' (JStr [])) (\<lambda>tx.
     and_then (py_strip_markup tx) (\<lambda>text.
       Inr (JObj
         [(''name'', none_to_null name),
          (''avg_placement'', none_to_null avg),
          (''pick_rate'', JStr (pick_rate @ ''%'')),
          (''tier'', JStr tier),
          (''group'', none_to_null grp),
          (''text'', JStr text),
          (''placement_dist'', JObj pd),
          (''dbf_id'', dbf_id)])))))))))))"

section \<open>The collaborators: blob store, remote sources, log\<close>

text \<open>
  A blob holds text. \<open>Json j\<close> is the text \<open>json.dumps\<close> writes for \<open>j\<close>, which
  \<open>json.loads\<close> reads back as \<open>j\<close>; \<open>Malformed\<close> is any text \<open>json.loads\<close> rejects.
\<close>

datatype blob = Malformed | Json json

datatype level = Info | Warning | Error

datatype message =
    Timer_past_due
  | Timer_executed
  | Connection_string_unset
  | Cannot_connect_storage
  | Loading_cards_from_blob
  | Blob_read_failed
  | Downloading_cards
  | Uploading_cards
  | Cards_download_failed
  | Fetching_stats
  | Stats_fetch_failed
  | Forcing_card_update
  | Trinket_not_found json
  | Processed_data_saved
  | Processed_upload_failed

text \<open>What a run does to the outside, in order: log lines and calls, each call recorded
  when it is made, whether it succeeds or not.\<close>

datatype event =
    Log level message
  | Blob_download
  | Get_card_data
  | Upload_card_data json
  | Get_trinket_stats
  | Upload_processed_data json

text \<open>
  What the outside answers during one run. The blob store answers \<open>exists\<close>, and may fail
  a read or a write; a request to a remote source gives the parsed body, or \<open>None\<close> when
  \<open>requests\<close> raises a \<open>RequestException\<close> (transport failure, error status, or a
  body that is not JSON).
\<close>

record env =
  past_due :: bool
  connection_string :: "string option"
  connect_fails :: bool
  blob_read_fails :: bool
  cards_upload_fails :: bool
  processed_upload_fails :: bool
  cards_response :: "json option"
  stats_response :: "json option"

text \<open>The two blobs of the container, \<open>None\<close> when a blob does not exist, and the events so far.\<close>

record world =
  cards_blob :: "blob option"
  processed_blob :: "blob option"
  trace :: "event list"

definition emit :: "event \<Rightarrow> world \<Rightarrow> world" where
  "emit ev w = w\<lparr>trace := trace w @ [ev]\<rparr>"

definition logging :: "level \<Rightarrow> message \<Rightarrow> world \<Rightarrow> world" where
  "logging l m w = emit (Log l m) w"

section \<open>\<open>get_card_data_and_map\<close>, lines 17 to 48\<close>

text \<open>
  Lines 30 and 44: \<open>{card['dbfId']: card for card in card_data if 'dbfId' in card}\<close>.
  A later card with the same \<open>dbfId\<close> replaces the earlier one.
\<close>

fun card_map_items :: "json list \<Rightarrow> card_map \<Rightarrow> py_error + card_map" where
  "card_map_items [] acc = Inr acc"
| "card_map_items (c # cards) acc =
     and_then (py_contains ''dbfId'' c) (\<lambda>has.
       if has then
         and_then (py_getitem c ''dbfId'') (\<lambda>v.
         and_then (hkey_of v) (\<lambda>k.
           card_map_items cards (AList.update k c acc)))
       else card_map_items cards acc)"

definition build_card_map :: "json \<Rightarrow> py_error + card_map" where
  "build_card_map card_data = and_then (py_iter card_data) (\<lambda>cards. card_map_items cards [])"

text \<open>
  Lines 26 to 33, the body of the \<open>if\<close>: everything from the download to the
  comprehension is inside the \<open>try\<close>, and \<open>except Exception\<close> turns any failure there
  into a warning. The result is \<open>None\<close> when control falls out of the \<open>if\<close>.
\<close>

definition load_from_blob :: "env \<Rightarrow> world \<Rightarrow> card_map option \<times> world" where
  "load_from_blob env w =
     (let w1 = logging Info Loading_cards_from_blob w;
          w2 = emit Blob_download w1
      in case (if blob_read_fails env then None else cards_blob w2) of
           Some (Json card_data) \<Rightarrow>
             (case build_card_map card_data of
                Inr card_map \<Rightarrow> (Some card_map, w2)
              | Inl e \<Rightarrow> (None, logging Warning Blob_read_failed w2))
         | _ \<Rightarrow> (None, logging Warning Blob_read_failed w2))"

text \<open>
  Lines 35 to 48. Only a \<open>RequestException\<close> is caught: a failed upload, or a payload
  the comprehension cannot walk, leaves the function as an exception. The upload comes
  before the comprehension.
\<close>

definition download_from_api ::
  "env \<Rightarrow> world \<Rightarrow> (py_error + card_map option \<times> bool) \<times> world" where
  "download_from_api env w =
     (let w1 = logging Info Downloading_cards w;
          w2 = emit Get_card_data w1
      in case cards_response env of
           None \<Rightarrow> (Inr (None, False), logging Error Cards_download_failed w2)
         | Some card_data \<Rightarrow>
             (let w3 = logging Info Uploading_cards w2;
                  w4 = emit (Upload_card_data card_data) w3
              in if cards_upload_fails env then (Inl StorageError, w4)
                 else
                   (let w5 = w4\<lparr>cards_blob := Some (Json card_data)\<rparr>
                    in case build_card_map card_data of
                         Inl e \<Rightarrow> (Inl e, w5)
                       | Inr card_map \<Rightarrow> (Inr (Some card_map, True), w5))))"

definition get_card_data_and_map ::
  "env \<Rightarrow> bool \<Rightarrow> world \<Rightarrow> (py_error + card_map option \<times> bool) \<times> world" where
  "get_card_data_and_map env force_update w =
     (if \<not> force_update \<and> cards_blob w \<noteq> None then
        (case load_from_blob env w of
           (Some card_map, w') \<Rightarrow> (Inr (Some card_map, False), w')
         | (None, w') \<Rightarrow> download_from_api env w')
      else download_from_api env w)"

section \<open>\<open>get_trinket_stats\<close>, lines 50 to 63\<close>

definition get_trinket_stats :: "env \<Rightarrow> world \<Rightarrow> json option \<times> world" where
  "get_trinket_stats env w =
     (let w1 = logging Info Fetching_stats w;
          w2 = emit Get_trinket_stats w1
      in case stats_response env of
           None \<Rightarrow> (None, logging Error Stats_fetch_failed w2)
         | Some stats \<Rightarrow> (Some stats, w2))"

section \<open>\<open>main\<close>, lines 65 to 127\<close>

text \<open>How a run ends: one of the five early \<open>return func.HttpResponse(..., status_code=500)\<close>,
  the end of the function, or an exception that nothing catches.\<close>

datatype failure =
    Server_config_error
  | Storage_unreachable
  | No_card_data
  | No_trinket_stats
  | Card_update_failed

datatype outcome =
    HttpResponse_500 failure
  | Returned_None
  | Raised py_error

text \<open>
  Line 88: \<open>any(t.get("trinket_dbf_id") not in card_map for t in trinket_stats)\<close>.
  \<open>any\<close> stops at the first record whose key is not in the map.
\<close>

fun any_missing :: "card_map \<Rightarrow> json list \<Rightarrow> py_error + bool" where
  "any_missing card_map [] = Inr False"
| "any_missing card_map (t # ts) =
     and_then (dict_get t ''trinket_dbf_id'') (\<lambda>v.
     and_then (hkey_of (none_to_null v)) (\<lambda>k.
       if map_of card_map k = None then Inr True else any_missing card_map ts))"

definition missing_trinkets_exist :: "card_map \<Rightarrow> json \<Rightarrow> py_error + bool" where
  "missing_trinkets_exist card_map trinket_stats =
     and_then (py_iter trinket_stats) (any_missing card_map)"

text \<open>
  Lines 89 to 93. The result is the map the loop will use, or the way the run ends here.
\<close>

definition refresh_if_missing ::
  "env \<Rightarrow> card_map \<Rightarrow> bool \<Rightarrow> json \<Rightarrow> world \<Rightarrow> (outcome + card_map) \<times> world" where
  "refresh_if_missing env card_map was_updated trinket_stats w =
     (case missing_trinkets_exist card_map trinket_stats of
        Inl e \<Rightarrow> (Inl (Raised e), w)
      | Inr missing \<Rightarrow>
          if missing \<and> \<not> was_updated then
            (case get_card_data_and_map env True (logging Info Forcing_card_update w) of
               (Inl e, w') \<Rightarrow> (Inl (Raised e), w')
             | (Inr (None, u), w') \<Rightarrow> (Inl (HttpResponse_500 Card_update_failed), w')
             | (Inr (Some new_map, u), w') \<Rightarrow>
                 if new_map = [] then (Inl (HttpResponse_500 Card_update_failed), w')
                 else (Inr new_map, w'))
          else (Inr card_map, w))"

text \<open>Lines 97 and 98: the join key and \<open>card_map.get(dbf_id)\<close>, \<open>None\<close> when absent.\<close>

definition find_card :: "card_map \<Rightarrow> json \<Rightarrow> py_error + json \<times> json" where
  "find_card card_map trinket =
     and_then (dict_get trinket ''trinket_dbf_id'') (\<lambda>v.
     and_then (hkey_of (none_to_null v)) (\<lambda>k.
       Inr (none_to_null v, none_to_null (map_of card_map k))))"

text \<open>Lines 95 to 114, the loop over the stat records.\<close>

fun process_trinkets ::
  "card_map \<Rightarrow> json list \<Rightarrow> json list \<Rightarrow> world \<Rightarrow> (py_error + json list) \<times> world" where
  "process_trinkets card_map [] processed_trinkets w = (Inr processed_trinkets, w)"
| "process_trinkets card_map (trinket # rest) processed_trinkets w =
     (case find_card card_map trinket of
        Inl e \<Rightarrow> (Inl e, w)
      | Inr (dbf_id, card_info) \<Rightarrow>
          if truthy card_info then
            (case combined_data card_info trinket dbf_id of
               Inl e \<Rightarrow> (Inl e, w)
             | Inr cd \<Rightarrow> process_trinkets card_map rest (processed_trinkets @ [cd]) w)
          else
            process_trinkets card_map rest processed_trinkets
              (logging Warning (Trinket_not_found dbf_id) w))"

text \<open>
  Line 116: \<open>sorted(processed_trinkets, key=lambda x: x["avg_placement"])\<close>. The keys
  are taken first. The sort is stable and compares keys with \<open><\<close>: numbers (bools
  among them) by value, strs by code points. A list of at most one element is returned
  without a comparison. \<open>None\<close> and dicts are never ordered, and keys of different kinds
  are not ordered with each other: with two elements or more every key takes part in a
  comparison, so the sort raises \<open>TypeError\<close>. When all keys are lists, whether a
  comparison raises depends on which pairs the sort visits; that case is left out.
\<close>

fun is_num :: "json \<Rightarrow> bool" where
  "is_num (JBool b) = True"
| "is_num (JInt n) = True"
| "is_num (JFloat q) = True"
| "is_num _ = False"

fun num_val :: "json \<Rightarrow> rat" where
  "num_val (JBool b) = (if b then 1 else 0)"
| "num_val (JInt n) = of_int n"
| "num_val (JFloat q) = q"
| "num_val _ = 0"

fun is_str :: "json \<Rightarrow> bool" where
  "is_str (JStr s) = True"
| "is_str _ = False"

fun str_val :: "json \<Rightarrow> string" where
  "str_val (JStr s) = s"
| "str_val _ = []"

fun is_arr :: "json \<Rightarrow> bool" where
  "is_arr (JArr xs) = True"
| "is_arr _ = False"

fun with_keys :: "json list \<Rightarrow> py_error + (json \<times> json) list" where
  "with_keys [] = Inr []"
| "with_keys (x # xs) =
     and_then (py_getitem x ''avg_placement'') (\<lambda>k.
     and_then (with_keys xs) (\<lambda>rest. Inr ((k, x) # rest)))"

definition sorted_by_avg_placement :: "json list \<Rightarrow> py_error + json list" where
  "sorted_by_avg_placement processed_trinkets =
     and_then (with_keys processed_trinkets) (\<lambda>kxs.
       if length kxs \<le> 1 then Inr (map snd kxs)
       else if list_all (\<lambda>kx. is_num (fst kx)) kxs then
         Inr (map snd (sort_key (\<lambda>kx. num_val (fst kx)) kxs))
       else if list_all (\<lambda>kx. is_str (fst kx)) kxs then
         Inr (map snd (sort_key (\<lambda>kx. str_val (fst kx)) kxs))
       else if list_all (\<lambda>kx. is_arr (fst kx)) kxs then Inl NotModelled
       else Inl TypeError)"

text \<open>Lines 118 to 127: the write of the result; a failure is logged, not raised.\<close>

definition save_processed :: "env \<Rightarrow> json list \<Rightarrow> world \<Rightarrow> outcome \<times> world" where
  "save_processed env sorted_trinkets w =
     (let w1 = emit (Upload_processed_data (JArr sorted_trinkets)) w
      in if processed_upload_fails env then
           (Returned_None, logging Error Processed_upload_failed w1)
         else
           (Returned_None,
            logging Info Processed_data_saved
              (w1\<lparr>processed_blob := Some (Json (JArr sorted_trinkets))\<rparr>)))"

text \<open>Lines 95 to 127.\<close>

definition process_and_save :: "env \<Rightarrow> card_map \<Rightarrow> json \<Rightarrow> world \<Rightarrow> outcome \<times> world" where
  "process_and_save env card_map trinket_stats w =
     (case py_iter trinket_stats of
        Inl e \<Rightarrow> (Raised e, w)
      | Inr ts \<Rightarrow>
          (case process_trinkets card_map ts [] w of
             (Inl e, w1) \<Rightarrow> (Raised e, w1)
           | (Inr processed_trinkets, w1) \<Rightarrow>
               (case sorted_by_avg_placement processed_trinkets of
                  Inl e \<Rightarrow> (Raised e, w1)
                | Inr sorted_trinkets \<Rightarrow> save_processed env sorted_trinkets w1)))"

text \<open>Lines 84 to 127, once the card map is there.\<close>

definition join_stats :: "env \<Rightarrow> card_map \<Rightarrow> bool \<Rightarrow> world \<Rightarrow> outcome \<times> world" where
  "join_stats env card_map was_updated w =
     (case get_trinket_stats env w of
        (None, w1) \<Rightarrow> (HttpResponse_500 No_trinket_stats, w1)
      | (Some trinket_stats, w1) \<Rightarrow>
          if \<not> truthy trinket_stats then (HttpResponse_500 No_trinket_stats, w1)
          else
            (case refresh_if_missing env card_map was_updated trinket_stats w1 of
               (Inl out, w2) \<Rightarrow> (out, w2)
             | (Inr card_map', w2) \<Rightarrow> process_and_save env card_map' trinket_stats w2))"

text \<open>Lines 66 to 68.\<close>

definition log_start :: "env \<Rightarrow> world \<Rightarrow> world" where
  "log_start env w =
     logging Info Timer_executed (if past_due env then logging Info Timer_past_due w else w)"

definition main :: "env \<Rightarrow> world \<Rightarrow> outcome \<times> world" where
  "main env w =
     (let w1 = log_start env w
      in if connection_string env = None \<or> connection_string env = Some [] then
           (HttpResponse_500 Server_config_error, logging Error Connection_string_unset w1)
         else if connect_fails env then
           (HttpResponse_500 Storage_unreachable, logging Error Cannot_connect_storage w1)
         else
           (case get_card_data_and_map env False w1 of
              (Inl e, w2) \<Rightarrow> (Raised e, w2)
            | (Inr (None, was_updated), w2) \<Rightarrow> (HttpResponse_500 No_card_data, w2)
            | (Inr (Some card_map, was_updated), w2) \<Rightarrow>
                if card_map = [] then (HttpResponse_500 No_card_data, w2)
                else join_stats env card_map was_updated w2))"

section \<open>Notions used to state the properties\<close>

text \<open>The dict key a stat record joins on: \<open>t.get("trinket_dbf_id")\<close>, hashed.\<close>

definition join_key :: "json \<Rightarrow> py_error + hkey" where
  "join_key t = and_then (dict_get t ''trinket_dbf_id'') (\<lambda>v. hkey_of (none_to_null v))"

text \<open>A stat record is a dict whose join key can be looked up in a dict.\<close>

definition is_stat_record :: "json \<Rightarrow> bool" where
  "is_stat_record t = (case join_key t of Inl e \<Rightarrow> False | Inr k \<Rightarrow> True)"

text \<open>The stat record's join key is not a key of the card map.\<close>

definition key_absent :: "card_map \<Rightarrow> json \<Rightarrow> bool" where
  "key_absent card_map t =
     (case join_key t of Inl e \<Rightarrow> False | Inr k \<Rightarrow> map_of card_map k = None)"

text \<open>The sort key of a Processed Trinket, \<open>None\<close> if it has none.\<close>

definition avg_placement :: "json \<Rightarrow> json" where
  "avg_placement x = (case py_getitem x ''avg_placement'' of Inl e \<Rightarrow> JNull | Inr k \<Rightarrow> k)"

text \<open>The number a string of decimal digits stands for.\<close>

definition digit_value :: "char \<Rightarrow> nat" where
  "digit_value c = of_char c - 48"

definition decimal_value :: "string \<Rightarrow> nat" where
  "decimal_value s = foldl (\<lambda>a c. 10 * a + digit_value c) 0 s"

text \<open>\<open>old\<close> occurs in \<open>s\<close> as a contiguous piece.\<close>

definition occurs_in :: "string \<Rightarrow> string \<Rightarrow> bool" where
  "occurs_in old s = (\<exists>a b. s = a @ old @ b)"

section \<open>Example data\<close>

text \<open>One card, one stat record for it, and surroundings in which everything works.\<close>

definition example_card :: json where
  "example_card = JObj [(''dbfId'', JInt 100), (''name'', JStr ''Thing''), (''text'', JStr ''A'')]"

definition example_stat :: json where
  "example_stat =
     JObj [(''trinket_dbf_id'', JInt 100), (''avg_final_placement'', JFloat (23 / 10)),
           (''pick_rate'', JFloat 10), (''tier'', JStr ''a''), (''group'', JInt 1),
           (''final_placement_distribution'', JArr [JInt 1, JInt 2])]"

definition example_env :: env where
  "example_env =
     \<lparr>past_due = False,
      connection_string = Some ''UseDevelopmentStorage=true'',
      connect_fails = False,
      blob_read_fails = False,
      cards_upload_fails = False,
      processed_upload_fails = False,
      cards_response = Some (JArr [example_card]),
      stats_response = Some (JArr [example_stat])\<rparr>"

definition empty_store :: world where
  "empty_store = \<lparr>cards_blob = None, processed_blob = None, trace = []\<rparr>"

text \<open>A store whose cached catalog predates the example card.\<close>

definition old_card :: json where
  "old_card = JObj [(''dbfId'', JInt 7), (''name'', JStr ''Old''), (''text'', JStr ''B'')]"

definition stale_store :: world where
  "stale_store =
     \<lparr>cards_blob = Some (Json (JArr [old_card])), processed_blob = None, trace = []\<rparr>"


definition second_stat :: json where
  "second_stat =
     JObj [(''trinket_dbf_id'', JInt 100), (''avg_final_placement'', JFloat (9 / 2)),
           (''pick_rate'', JFloat (85 / 2)), (''tier'', JStr ''b''), (''group'', JInt 2)]"

definition example_processed :: json where
  "example_processed =
     JObj [(''name'', JStr ''Thing''), (''avg_placement'', JFloat (23 / 10)),
           (''pick_rate'', JStr ''10.00%''), (''tier'', JStr ''A''), (''group'', JInt 1),
           (''text'', JStr ''A''),
           (''placement_dist'', JObj [(''1st'', JInt 1), (''2st'', JInt 2)]),
           (''dbf_id'', JInt 100)]"

definition second_processed :: json where
  "second_processed =
     JObj [(''name'', JStr ''Thing''), (''avg_placement'', JFloat (9 / 2)),
           (''pick_rate'', JStr ''42.50%''), (''tier'', JStr ''B''), (''group'', JInt 2),
           (''text'', JStr ''A''),
           (''placement_dist'', JObj []),
           (''dbf_id'', JInt 100)]"

text \<open>Surroundings where the stats hold two records for the example card, the worse placed
  one first.\<close>

definition two_stats_env :: env where
  "two_stats_env = example_env\<lparr>stats_response := Some (JArr [second_stat, example_stat])\<rparr>"

section \<open>Properties of the string helpers\<close>

lemma digit_char_inj: "d < 10 \<Longrightarrow> e < 10 \<Longrightarrow> digit_char d = digit_char e \<Longrightarrow> d = e"
proof -
  assume d: "d < 10" and e: "e < 10" and eq: "digit_char d = digit_char e"
  have D: "d \<in> {0,1,2,3,4,5,6,7,8,9}" using d by auto
  have E: "e \<in> {0,1,2,3,4,5,6,7,8,9}" using e by auto
  show ?thesis using D E eq by (auto simp: digit_char_def)
qed

lemma digit_char_digit: "d < 10 \<Longrightarrow> digit_char d \<in> set ''0123456789''"
proof -
  assume "d < 10"
  then have "d \<in> {0,1,2,3,4,5,6,7,8,9}" by auto
  then show ?thesis by (auto simp: digit_char_def)
qed

lemma str_nat_small: "n < 10 \<Longrightarrow> str_nat n = [digit_char n]"
  by (subst str_nat.simps) simp

lemma str_nat_big: "10 \<le> n \<Longrightarrow> str_nat n = str_nat (n div 10) @ [digit_char (n mod 10)]"
  by (subst str_nat.simps) simp

lemma str_nat_nonempty: "str_nat n \<noteq> []"
  by (subst str_nat.simps) simp

lemma str_nat_length: "10 \<le> n \<Longrightarrow> 2 \<le> length (str_nat n)"
  by (subst str_nat.simps, subst str_nat.simps) auto

lemma str_nat_digits: "set (str_nat n) \<subseteq> set ''0123456789''"
proof (induction n rule: str_nat.induct)
  case (1 n)
  show ?case
  proof (cases "n < 10")
    case True
    then show ?thesis using digit_char_digit[of n] by (simp add: str_nat_small)
  next
    case False
    have "digit_char (n mod 10) \<in> set ''0123456789''" by (rule digit_char_digit) simp
    with 1[OF False] False show ?thesis by (simp add: str_nat_big)
  qed
qed

text \<open>Two numbers with the same decimal rendering are the same number.\<close>

lemma str_nat_inj: "str_nat m = str_nat n \<Longrightarrow> m = n"
proof (induction m arbitrary: n rule: str_nat.induct)
  case (1 m)
  show ?case
  proof (cases "m < 10")
    case msmall: True
    show ?thesis
    proof (cases "n < 10")
      case True
      with msmall 1(2) show ?thesis by (simp add: str_nat_small digit_char_inj)
    next
      case False
      then have "2 \<le> length (str_nat n)" by (simp add: str_nat_length)
      moreover have "length (str_nat m) = 1" using msmall by (simp add: str_nat_small)
      ultimately show ?thesis using 1(2) by simp
    qed
  next
    case mbig: False
    show ?thesis
    proof (cases "n < 10")
      case True
      from mbig have "2 \<le> length (str_nat m)" by (simp add: str_nat_length)
      moreover have "length (str_nat n) = 1" using True by (simp add: str_nat_small)
      ultimately show ?thesis using 1(2) by simp
    next
      case nbig: False
      from mbig nbig 1(2) have eq: "str_nat (m div 10) = str_nat (n div 10)"
        and dg: "digit_char (m mod 10) = digit_char (n mod 10)"
        by (simp_all add: str_nat_big)
      from 1(1)[OF mbig eq] have "m div 10 = n div 10" .
      moreover from dg have "m mod 10 = n mod 10" by (auto intro: digit_char_inj)
      ultimately show ?thesis by (metis div_mult_mod_eq)
    qed
  qed
qed

lemma placement_label_inj: "placement_label i = placement_label j \<Longrightarrow> i = j"
  using str_nat_inj[of "i + 1" "j + 1"] by (simp add: placement_label_def)

lemma update_fresh: "k \<notin> fst ` set al \<Longrightarrow> AList.update k v al = al @ [(k, v)]"
  by (induction al) auto

text \<open>No label is written twice, so the comprehension never overwrites an item.\<close>

lemma placement_items_fresh:
  "distinct (map fst items) \<Longrightarrow>
   (\<forall>i \<in> fst ` set items. placement_label i \<notin> fst ` set acc) \<Longrightarrow>
   placement_items items acc = acc @ map (\<lambda>(i, v). (placement_label i, v)) items"
proof (induction items acc rule: placement_items.induct)
  case (1 acc)
  then show ?case by simp
next
  case (2 i val rest acc)
  have fresh: "placement_label i \<notin> fst ` set acc" using 2(3) by simp
  have upd: "AList.update (placement_label i) val acc = acc @ [(placement_label i, val)]"
    using fresh by (rule update_fresh)
  have d: "distinct (map fst rest)" using 2(2) by simp
  have "\<forall>j \<in> fst ` set rest. placement_label j \<notin> fst ` set (acc @ [(placement_label i, val)])"
  proof
    fix j assume j: "j \<in> fst ` set rest"
    then have "j \<noteq> i" using 2(2) by auto
    then have "placement_label j \<noteq> placement_label i" using placement_label_inj by blast
    moreover have "placement_label j \<notin> fst ` set acc" using 2(3) j by auto
    ultimately show "placement_label j \<notin> fst ` set (acc @ [(placement_label i, val)])" by simp
  qed
  with 2(1)[OF d] upd show ?case by simp
qed

lemma placement_items_enumerate:
  "placement_items (enumerate 0 vals) [] =
     map (\<lambda>(i, v). (placement_label i, v)) (enumerate 0 vals)"
  by (rule placement_items_fresh[where acc="[]", simplified]) simp_all

section \<open>The placement labels\<close>

text \<open>
  Claim C2, as the code has it. For the final placement distribution \<open>[10, 20, 5]\<close> the
  transform gives the mapping \<open>{"1st": 10, "2st": 20, "3st": 5}\<close>: every label ends in
  the letters \<open>st\<close>.
\<close>

theorem placement_dist_10_20_5:
  "placement_dist (JObj [(''final_placement_distribution'', JArr [JInt 10, JInt 20, JInt 5])])
     = Inr [(''1st'', JInt 10), (''2st'', JInt 20), (''3st'', JInt 5)]"
  by (simp add: placement_dist_def and_then_def dict_get_default_def placement_label_def
      str_nat.simps digit_char_def enumerate_eq_zip upt_rec)

text \<open>
  The mapping \<open>{"1st": 10, "2nd": 20, "3rd": 5}\<close> is not what the transform gives for
  \<open>[10, 20, 5]\<close>: the result has no key \<open>"2nd"\<close>.
\<close>

theorem placement_dist_10_20_5_not_ordinal:
  "placement_dist (JObj [(''final_placement_distribution'', JArr [JInt 10, JInt 20, JInt 5])])
     \<noteq> Inr [(''1st'', JInt 10), (''2nd'', JInt 20), (''3rd'', JInt 5)]
   \<and> and_then
        (placement_dist
           (JObj [(''final_placement_distribution'', JArr [JInt 10, JInt 20, JInt 5])]))
        (\<lambda>pd. Inr (map_of pd ''2nd'')) = (Inr None :: py_error + json option)"
  by (simp add: placement_dist_def and_then_def dict_get_default_def placement_label_def
      str_nat.simps digit_char_def enumerate_eq_zip upt_rec)

text \<open>
  Claim C3. For every stat record whose final placement distribution is a list, and every
  index \<open>i\<close> into it, the item of \<open>placement_dist\<close> at position \<open>i\<close> has the key
  \<open>"{i+1}st"\<close>, the decimal rendering of \<open>i+1\<close> followed by the letters \<open>st\<close>, and the
  value at index \<open>i\<close>; no two indices share a key.
\<close>

theorem placement_dist_key_literal_st:
  assumes "dict_get trinket ''final_placement_distribution'' = Inr (Some (JArr vals))"
      and "i < length vals"
  shows "\<exists>pd. placement_dist trinket = Inr pd
           \<and> length pd = length vals
           \<and> pd ! i = (str_nat (i + 1) @ ''st'', vals ! i)
           \<and> map_of pd (str_nat (i + 1) @ ''st'') = Some (vals ! i)
           \<and> distinct (map fst pd)"
proof -
  let ?pd = "map (\<lambda>(i, v). (placement_label i, v)) (enumerate 0 vals)"
  have pd: "placement_dist trinket = Inr ?pd"
    using assms(1)
    by (simp add: placement_dist_def and_then_def dict_get_default_def placement_items_enumerate)
  have keys: "map fst ?pd = map placement_label [0..<length vals]"
  proof -
    have "map fst ?pd = map (placement_label \<circ> fst) (enumerate 0 vals)"
      by (simp add: comp_def case_prod_unfold)
    also have "\<dots> = map placement_label (map fst (enumerate 0 vals))"
      by (simp only: map_map)
    also have "\<dots> = map placement_label [0..<length vals]"
      by simp
    finally show ?thesis .
  qed
  have inj: "inj placement_label" using placement_label_inj by (auto simp: inj_def)
  have dst: "distinct (map fst ?pd)"
    unfolding keys using inj by (simp add: distinct_map inj_on_def)
  have nth: "?pd ! i = (placement_label i, vals ! i)"
    using assms(2) by (simp add: nth_enumerate_eq)
  have "(placement_label i, vals ! i) \<in> set ?pd"
    using nth assms(2) by (metis length_enumerate length_map nth_mem)
  with dst have "map_of ?pd (placement_label i) = Some (vals ! i)"
    by simp
  with pd dst nth show ?thesis by (simp add: placement_label_def)
qed

theorem placement_dist_key_literal_st_witness:
  "(1::nat) < length [JInt 10, JInt 20, JInt 5]
   \<and> (\<exists>pd. placement_dist
              (JObj [(''final_placement_distribution'', JArr [JInt 10, JInt 20, JInt 5])])
              = Inr pd
          \<and> pd ! 1 = (''2st'', JInt 20))"
  using placement_dist_key_literal_st
    [of "JObj [(''final_placement_distribution'', JArr [JInt 10, JInt 20, JInt 5])]"
        "[JInt 10, JInt 20, JInt 5]" 1]
  by (simp add: str_nat.simps digit_char_def) blast

section \<open>The field transforms\<close>

subsection \<open>The decimal rendering\<close>

lemma digit_value_digit_char: "d < 10 \<Longrightarrow> digit_value (digit_char d) = d"
proof -
  assume "d < 10"
  then have "d \<in> {0,1,2,3,4,5,6,7,8,9}" by auto
  then show ?thesis by (auto simp: digit_char_def digit_value_def)
qed

lemma decimal_value_snoc:
  "decimal_value (s @ [c]) = 10 * decimal_value s + digit_value c"
  by (simp add: decimal_value_def)

lemma decimal_value_str_nat: "decimal_value (str_nat n) = n"
proof (induction n rule: str_nat.induct)
  case (1 n)
  show ?case
  proof (cases "n < 10")
    case True
    then show ?thesis
      by (simp add: str_nat_small decimal_value_def digit_value_digit_char)
  next
    case False
    with 1 show ?thesis
      by (simp add: str_nat_big decimal_value_snoc digit_value_digit_char)
  qed
qed

lemma digit_char_nonzero: "0 < d \<Longrightarrow> d < 10 \<Longrightarrow> digit_char d \<noteq> CHR ''0''"
proof -
  assume "0 < d" "d < 10"
  then have "d \<in> {1,2,3,4,5,6,7,8,9}" by auto
  then show ?thesis by (auto simp: digit_char_def)
qed

lemma str_nat_no_leading_zero: "0 < n \<Longrightarrow> hd (str_nat n) \<noteq> CHR ''0''"
proof (induction n rule: str_nat.induct)
  case (1 n)
  show ?case
  proof (cases "n < 10")
    case True
    with 1(2) show ?thesis by (simp add: str_nat_small digit_char_nonzero)
  next
    case False
    then have "0 < n div 10" by simp
    with 1(1)[OF False] have "hd (str_nat (n div 10)) \<noteq> CHR ''0''" by simp
    with False str_nat_nonempty[of "n div 10"] show ?thesis by (simp add: str_nat_big)
  qed
qed

lemma str_nat_canonical: "length (str_nat n) = 1 \<or> hd (str_nat n) \<noteq> CHR ''0''"
proof (cases "n = 0")
  case True
  then show ?thesis by (simp add: str_nat_small)
next
  case False
  then show ?thesis using str_nat_no_leading_zero[of n] by simp
qed

subsection \<open>Rounding\<close>

lemma round_half_even_nearest:
  "\<bar>of_int (round_half_even x) - x\<bar> \<le> 1 / 2
   \<and> (\<bar>of_int (round_half_even x) - x\<bar> = 1 / 2 \<longrightarrow> even (round_half_even x))"
proof -
  let ?f = "\<lfloor>x\<rfloor>"
  let ?d = "x - of_int ?f"
  have d0: "0 \<le> ?d" and d1: "?d < 1" by linarith+
  consider "?d < 1 / 2" | "1 / 2 < ?d" | "?d = 1 / 2" "even ?f" | "?d = 1 / 2" "odd ?f"
    by fastforce
  then show ?thesis
  proof cases
    case 1
    then have r: "round_half_even x = ?f"
      unfolding round_half_even_def Let_def by (simp only: if_True)
    have "\<bar>of_int ?f - x\<bar> \<le> 1 / 2" "\<bar>of_int ?f - x\<bar> \<noteq> 1 / 2"
      using 1 d0 by linarith+
    then show ?thesis unfolding r by blast
  next
    case 2
    then have "\<not> ?d < 1 / 2" by linarith
    with 2 have r: "round_half_even x = ?f + 1"
      unfolding round_half_even_def Let_def by (simp only: if_True if_False)
    have e: "(of_int (?f + 1) :: rat) = of_int ?f + 1" by simp
    have "\<bar>of_int (?f + 1) - x\<bar> \<le> 1 / 2" "\<bar>of_int (?f + 1) - x\<bar> \<noteq> 1 / 2"
      using 2 d1 unfolding e by linarith+
    then show ?thesis unfolding r by blast
  next
    case 3
    then have "\<not> ?d < 1 / 2" "\<not> 1 / 2 < ?d" by linarith+
    with 3 have r: "round_half_even x = ?f"
      unfolding round_half_even_def Let_def by (simp only: if_True if_False)
    have "\<bar>of_int ?f - x\<bar> \<le> 1 / 2" using 3(1) by linarith
    with 3(2) show ?thesis unfolding r by blast
  next
    case 4
    then have "\<not> ?d < 1 / 2" "\<not> 1 / 2 < ?d" by linarith+
    with 4 have r: "round_half_even x = ?f + 1"
      unfolding round_half_even_def Let_def by (simp only: if_True if_False)
    have e: "(of_int (?f + 1) :: rat) = of_int ?f + 1" by simp
    have "\<bar>of_int (?f + 1) - x\<bar> \<le> 1 / 2" using 4(1) unfolding e by linarith
    moreover have "even (?f + 1)" using 4(2) by simp
    ultimately show ?thesis unfolding r by blast
  qed
qed

lemma round_half_even_nonneg: "0 \<le> x \<Longrightarrow> 0 \<le> round_half_even x"
proof -
  assume "0 \<le> x"
  then have "0 \<le> \<lfloor>x\<rfloor>" by simp
  then show ?thesis by (simp add: round_half_even_def Let_def)
qed

text \<open>
  What \<open>.2f\<close> prints: a minus sign for a negative number, the digits of a whole number
  without a leading zero, a point and two digits; read as a number of hundredths, the
  digits are the whole number nearest to a hundred times the magnitude, the even one of
  two that are equally near.
\<close>

lemma format_2f_value:
  "\<exists>ip d1 d2. format_2f q = (if q < 0 then ''-'' else []) @ ip @ ''.'' @ [d1, d2]
     \<and> ip \<noteq> [] \<and> set (ip @ [d1, d2]) \<subseteq> set ''0123456789''
     \<and> (length ip = 1 \<or> hd ip \<noteq> CHR ''0'')
     \<and> \<bar>of_nat (decimal_value (ip @ [d1, d2])) - \<bar>q\<bar> * 100\<bar> \<le> 1 / 2
     \<and> (\<bar>of_nat (decimal_value (ip @ [d1, d2])) - \<bar>q\<bar> * 100\<bar> = 1 / 2
          \<longrightarrow> even (decimal_value (ip @ [d1, d2])))"
proof -
  define r where "r = round_half_even (\<bar>q\<bar> * 100)"
  define h where "h = nat r"
  have r0: "0 \<le> r" unfolding r_def by (rule round_half_even_nonneg) simp
  then have hr: "int h = r" by (simp add: h_def)
  let ?ip = "str_nat (h div 100)"
  let ?d1 = "digit_char (h mod 100 div 10)" and ?d2 = "digit_char (h mod 10)"
  have a: "h mod 100 div 10 < 10" by (simp add: div_less_iff_less_mult)
  have b: "h mod 10 < 10" by simp
  have f: "format_2f q = (if q < 0 then ''-'' else []) @ ?ip @ ''.'' @ [?d1, ?d2]"
    by (simp add: format_2f_def h_def r_def Let_def)
  have dg: "set (?ip @ [?d1, ?d2]) \<subseteq> set ''0123456789''"
    using str_nat_digits[of "h div 100"] digit_char_digit[OF a] digit_char_digit[OF b] by simp
  have "decimal_value (?ip @ [?d1, ?d2])
          = 10 * (10 * (h div 100) + h mod 100 div 10) + h mod 10"
    using decimal_value_snoc[of "?ip @ [?d1]" ?d2] decimal_value_snoc[of ?ip ?d1]
    by (simp add: decimal_value_str_nat digit_value_digit_char a b)
  also have "\<dots> = 100 * (h div 100) + (10 * (h mod 100 div 10) + h mod 100 mod 10)"
    by (simp add: mod_mod_cancel)
  also have "\<dots> = 100 * (h div 100) + h mod 100"
    by (simp only: mult_div_mod_eq)
  also have "\<dots> = h"
    by (simp only: mult_div_mod_eq)
  finally have v: "decimal_value (?ip @ [?d1, ?d2]) = h" .
  have "(of_nat h :: rat) = of_int r" using hr by (metis of_int_of_nat_eq)
  with round_half_even_nearest[of "\<bar>q\<bar> * 100"]
  have n: "\<bar>of_nat h - \<bar>q\<bar> * 100\<bar> \<le> 1 / 2"
    and e: "\<bar>of_nat h - \<bar>q\<bar> * 100\<bar> = 1 / 2 \<longrightarrow> even r"
    by (simp_all add: r_def)
  have "even r \<longleftrightarrow> even h" using hr by (metis even_of_nat)
  with e have e': "\<bar>of_nat h - \<bar>q\<bar> * 100\<bar> = 1 / 2 \<longrightarrow> even h" by simp
  have "format_2f q = (if q < 0 then ''-'' else []) @ ?ip @ ''.'' @ [?d1, ?d2]
     \<and> ?ip \<noteq> [] \<and> set (?ip @ [?d1, ?d2]) \<subseteq> set ''0123456789''
     \<and> (length ?ip = 1 \<or> hd ?ip \<noteq> CHR ''0'')
     \<and> \<bar>of_nat (decimal_value (?ip @ [?d1, ?d2])) - \<bar>q\<bar> * 100\<bar> \<le> 1 / 2
     \<and> (\<bar>of_nat (decimal_value (?ip @ [?d1, ?d2])) - \<bar>q\<bar> * 100\<bar> = 1 / 2
          \<longrightarrow> even (decimal_value (?ip @ [?d1, ?d2])))"
    unfolding v
    using f str_nat_nonempty[of "h div 100"] dg str_nat_canonical[of "h div 100"] n e'
    by blast
  then show ?thesis by blast
qed

subsection \<open>Replacement\<close>

lemma take_occurs_in: "take (length old) s = old \<Longrightarrow> occurs_in old s"
  unfolding occurs_in_def by (metis append_Nil append_take_drop_id)

lemma occurs_in_Cons: "occurs_in old s \<Longrightarrow> occurs_in old (c # s)"
  unfolding occurs_in_def by (metis append_Cons)

text \<open>A str in which \<open>old\<close> does not occur is left as it is.\<close>

lemma replace_from_none:
  "old \<noteq> [] \<Longrightarrow> \<not> occurs_in old s \<Longrightarrow> replace_from old new s = s"
proof (induction s)
  case Nil
  then show ?case by simp
next
  case (Cons c cs)
  from Cons.prems(2) have "take (length old) (c # cs) \<noteq> old"
    using take_occurs_in by blast
  moreover from Cons.prems(2) have "\<not> occurs_in old cs"
    using occurs_in_Cons by blast
  ultimately show ?case using Cons.IH Cons.prems(1) by simp
qed

text \<open>
  The leftmost occurrence of \<open>old\<close> is replaced, and the replacement goes on behind it:
  all occurrences are replaced, from the left, none overlapping another.
\<close>

lemma replace_from_leftmost:
  "old \<noteq> [] \<Longrightarrow> \<not> occurs_in old (butlast (p @ old)) \<Longrightarrow>
   replace_from old new (p @ old @ r) = p @ new @ replace_from old new r"
proof (induction p)
  case Nil
  from Nil.prems(1) obtain c cs where o: "old = c # cs" by (cases old) auto
  have "replace_from old new (old @ r) = new @ replace_from old new (drop (length old) (old @ r))"
    unfolding o by simp
  then show ?case by simp
next
  case (Cons c p)
  have ne: "p @ old \<noteq> []" using Cons.prems(1) by simp
  have bl: "butlast ((c # p) @ old) = c # butlast (p @ old)" using ne by simp
  have "take (length old) (c # p @ old @ r) \<noteq> old"
  proof
    assume t: "take (length old) (c # p @ old @ r) = old"
    have "c # p @ old @ r = butlast ((c # p) @ old) @ (last old # r)"
      using Cons.prems(1) by (simp add: butlast_append)
    moreover have "length old \<le> length (butlast ((c # p) @ old))" by simp
    ultimately have "take (length old) (butlast ((c # p) @ old)) = old"
      using t by (metis take_append diff_is_0_eq take_0 append_Nil2)
    then have "occurs_in old (butlast ((c # p) @ old))" by (rule take_occurs_in)
    with Cons.prems(2) show False by simp
  qed
  moreover have "\<not> occurs_in old (butlast (p @ old))"
    using Cons.prems(2) occurs_in_Cons unfolding bl by blast
  ultimately show ?case using Cons.IH Cons.prems(1) by simp
qed

subsection \<open>Upper-casing\<close>

text \<open>Character by character: the lowercase letters with an uppercase form below 256 move
  32 code points down, every other character but the sharp s stays.\<close>

lemma lowercase_letters_codes:
  "map of_char lowercase_letters = [97..<123] @ [224..<247] @ [248..<255::nat]"
  by (simp add: lowercase_letters_def upt_rec)

lemma lowercase_letters_upper:
  "list_all (\<lambda>c. \<exists>u. char_upper c = Some [u] \<and> (of_char u :: nat) + 32 = of_char c)
     lowercase_letters"
  by (simp add: lowercase_letters_def uppercase_letters_def char_upper_def)

lemma char_upper_code:
  assumes "c \<noteq> CHR 0xB5" and "c \<noteq> CHR 0xDF" and "c \<noteq> CHR 0xFF"
  shows "\<exists>u. char_upper c = Some [u] \<and> (of_char u :: nat) =
       (if (97 \<le> (of_char c :: nat) \<and> (of_char c :: nat) \<le> 122)
           \<or> (224 \<le> (of_char c :: nat) \<and> (of_char c :: nat) \<le> 254
               \<and> (of_char c :: nat) \<noteq> 247)
        then (of_char c :: nat) - 32 else of_char c)"
proof -
  let ?n = "of_char c :: nat"
  let ?letter = "(97 \<le> ?n \<and> ?n \<le> 122) \<or> (224 \<le> ?n \<and> ?n \<le> 254 \<and> ?n \<noteq> 247)"
  have "?letter \<longleftrightarrow> ?n \<in> {97..<123} \<union> {224..<247} \<union> {248..<255}"
    by (simp only: Un_iff atLeastLessThan_iff) linarith
  also have "\<dots> \<longleftrightarrow> ?n \<in> set ([97..<123] @ [224..<247] @ [248..<255])"
    by (simp only: set_append set_upt Un_assoc)
  also have "\<dots> \<longleftrightarrow> ?n \<in> of_char ` set lowercase_letters"
    by (simp only: lowercase_letters_codes[symmetric] set_map)
  also have "\<dots> \<longleftrightarrow> c \<in> set lowercase_letters"
    by (auto simp: image_iff)
  finally have m: "?letter \<longleftrightarrow> c \<in> set lowercase_letters" .
  show ?thesis
  proof (cases "c \<in> set lowercase_letters")
    case True
    with lowercase_letters_upper obtain u
      where "char_upper c = Some [u]" "(of_char u :: nat) + 32 = of_char c"
      by (auto simp: list_all_iff)
    with True m show ?thesis by auto
  next
    case False
    have "length lowercase_letters = length uppercase_letters"
      by (simp add: lowercase_letters_def uppercase_letters_def)
    with False have "map_of (zip lowercase_letters uppercase_letters) c = None"
      by (simp add: map_of_zip_is_None)
    with assms have "char_upper c = Some [c]" by (simp add: char_upper_def)
    with False m show ?thesis by auto
  qed
qed

lemma upper_append:
  "upper a = Some x \<Longrightarrow> upper b = Some y \<Longrightarrow> upper (a @ b) = Some (x @ y)"
  by (induction a arbitrary: x) (auto split: option.splits)

lemma upper_None: "upper t = None \<longleftrightarrow> CHR 0xB5 \<in> set t \<or> CHR 0xFF \<in> set t"
proof (induction t)
  case Nil
  then show ?case by simp
next
  case (Cons c cs)
  have "char_upper c = None \<longleftrightarrow> c = CHR 0xB5 \<or> c = CHR 0xFF"
    by (auto simp: char_upper_def split: option.splits if_splits)
  with Cons show ?case by (auto split: option.splits)
qed

lemma replace_nonempty: "old \<noteq> [] \<Longrightarrow> replace s old new = replace_from old new s"
  by (simp add: replace_def)

subsection \<open>The three fields\<close>

text \<open>
  Claim C7. Take a matched pair whose pick rate is a float \<open>q\<close>, whose tier is a str
  \<open>t\<close> (without the two characters whose uppercase form has a code point above 255)
  and whose card text is a str \<open>s\<close>. Then in the Processed Trinket

  \<^item> \<open>pick_rate\<close> is \<open>f"{q:.2f}"\<close> followed by \<open>%\<close>: a minus sign if \<open>q\<close> is negative, a
    whole number without a leading zero, a point and exactly two digits, the digits
    being the number of hundredths nearest to the magnitude of \<open>q\<close> (the even one of two
    equally near);
  \<^item> \<open>tier\<close> is \<open>t\<close> upper-cased, where upper-casing goes character by character, moves
    \<open>a\<close> to \<open>z\<close> and the accented lowercase letters 32 code points down, turns the sharp
    s into \<open>SS\<close> and leaves the other characters;
  \<^item> \<open>text\<close> is \<open>s\<close> after five literal replacements in this order: backslash-n by a
    space, then \<open><b>\<close>, \<open></b>\<close>, \<open><i>\<close>, \<open></i>\<close> by nothing, where a replacement leaves
    a str without an occurrence as it is, and otherwise replaces the leftmost occurrence
    and goes on behind it.

  So 42.5 becomes \<open>42.50%\<close>, \<open>b\<close> becomes \<open>B\<close>, and \<open>Hello\n<b>World</b>\<close> (with a backslash
  and an \<open>n\<close>) becomes \<open>Hello World\<close>.
\<close>

theorem field_transforms:
  assumes "dict_get trinket ''pick_rate'' = Inr (Some (JFloat q))"
      and "dict_get trinket ''tier'' = Inr (Some (JStr t))"
      and "CHR 0xB5 \<notin> set t" and "CHR 0xFF \<notin> set t"
      and "dict_get card_info ''text'' = Inr (Some (JStr s))"
      and "placement_dist trinket = Inr pd"
  shows "(\<exists>out u. combined_data card_info trinket dbf_id = Inr (JObj out)
           \<and> map_of out ''pick_rate'' = Some (JStr (format_2f q @ ''%''))
           \<and> upper t = Some u \<and> map_of out ''tier'' = Some (JStr u)
           \<and> map_of out ''text'' = Some (JStr
                (replace (replace (replace (replace (replace s [CHR 0x5C, CHR ''n''] '' '')
                   ''<b>'' []) ''</b>'' []) ''<i>'' []) ''</i>'' [])))
       \<and> (\<exists>ip d1 d2. format_2f q = (if q < 0 then ''-'' else []) @ ip @ ''.'' @ [d1, d2]
           \<and> ip \<noteq> [] \<and> set (ip @ [d1, d2]) \<subseteq> set ''0123456789''
           \<and> (length ip = 1 \<or> hd ip \<noteq> CHR ''0'')
           \<and> \<bar>of_nat (decimal_value (ip @ [d1, d2])) - \<bar>q\<bar> * 100\<bar> \<le> 1 / 2
           \<and> (\<bar>of_nat (decimal_value (ip @ [d1, d2])) - \<bar>q\<bar> * 100\<bar> = 1 / 2
                \<longrightarrow> even (decimal_value (ip @ [d1, d2]))))
       \<and> (\<forall>c. c \<noteq> CHR 0xB5 \<and> c \<noteq> CHR 0xDF \<and> c \<noteq> CHR 0xFF \<longrightarrow>
             (\<exists>v. upper [c] = Some [v] \<and> (of_char v :: nat) =
                (if (97 \<le> (of_char c :: nat) \<and> (of_char c :: nat) \<le> 122)
                    \<or> (224 \<le> (of_char c :: nat) \<and> (of_char c :: nat) \<le> 254
                        \<and> (of_char c :: nat) \<noteq> 247)
                 then (of_char c :: nat) - 32 else of_char c)))
       \<and> upper [CHR 0xDF] = Some ''SS''
       \<and> upper [] = Some []
       \<and> (\<forall>a b x y. upper a = Some x \<and> upper b = Some y \<longrightarrow> upper (a @ b) = Some (x @ y))
       \<and> (\<forall>x old new. old \<noteq> [] \<and> \<not> occurs_in old x \<longrightarrow> replace x old new = x)
       \<and> (\<forall>p old r new. old \<noteq> [] \<and> \<not> occurs_in old (butlast (p @ old)) \<longrightarrow>
             replace (p @ old @ r) old new = p @ new @ replace r old new)
       \<and> format_2f (85 / 2) @ ''%'' = ''42.50%''
       \<and> upper ''b'' = Some ''B''
       \<and> strip_markup (''Hello'' @ [CHR 0x5C, CHR ''n''] @ ''<b>World</b>'') = ''Hello World''"
  (is "?A \<and> ?F \<and> ?U1 \<and> ?U2 \<and> ?U3 \<and> ?U4 \<and> ?R1 \<and> ?R2 \<and> ?E1 \<and> ?E2 \<and> ?E3")
proof -
  obtain tkv where t: "trinket = JObj tkv" using assms(1) by (cases trinket) auto
  obtain ckv where c: "card_info = JObj ckv" using assms(5) by (cases card_info) auto
  from assms(3,4) obtain u where u: "upper t = Some u"
    using upper_None[of t] by (cases "upper t") auto
  have "combined_data card_info trinket dbf_id = Inr (JObj
         [(''name'', none_to_null (map_of ckv ''name'')),
          (''avg_placement'', none_to_null (map_of tkv ''avg_final_placement'')),
          (''pick_rate'', JStr (format_2f q @ ''%'')),
          (''tier'', JStr u),
          (''group'', none_to_null (map_of tkv ''group'')),
          (''text'', JStr (strip_markup s)),
          (''placement_dist'', JObj pd),
          (''dbf_id'', dbf_id)])"
    using assms(1,2,5,6) u unfolding t c
    by (simp add: combined_data_def and_then_def dict_get_default_def)
  then have A: ?A
    by (intro exI[of _ "[(''name'', none_to_null (map_of ckv ''name'')),
          (''avg_placement'', none_to_null (map_of tkv ''avg_final_placement'')),
          (''pick_rate'', JStr (format_2f q @ ''%'')),
          (''tier'', JStr u),
          (''group'', none_to_null (map_of tkv ''group'')),
          (''text'', JStr (strip_markup s)),
          (''placement_dist'', JObj pd),
          (''dbf_id'', dbf_id)]"] exI[of _ u])
       (simp add: u strip_markup_def backslash_n_def)
  have F: ?F by (rule format_2f_value)
  have U1: ?U1
  proof (intro allI impI)
    fix c assume "c \<noteq> CHR 0xB5 \<and> c \<noteq> CHR 0xDF \<and> c \<noteq> CHR 0xFF"
    then obtain v where v: "char_upper c = Some [v]" and "(of_char v :: nat) =
                (if (97 \<le> (of_char c :: nat) \<and> (of_char c :: nat) \<le> 122)
                    \<or> (224 \<le> (of_char c :: nat) \<and> (of_char c :: nat) \<le> 254
                        \<and> (of_char c :: nat) \<noteq> 247)
                 then (of_char c :: nat) - 32 else of_char c)"
      using char_upper_code[of c] by blast
    moreover from v have "upper [c] = Some [v]" by simp
    ultimately show "\<exists>v. upper [c] = Some [v] \<and> (of_char v :: nat) =
                (if (97 \<le> (of_char c :: nat) \<and> (of_char c :: nat) \<le> 122)
                    \<or> (224 \<le> (of_char c :: nat) \<and> (of_char c :: nat) \<le> 254
                        \<and> (of_char c :: nat) \<noteq> 247)
                 then (of_char c :: nat) - 32 else of_char c)"
      by blast
  qed
  have U2: ?U2 by (simp add: char_upper_def)
  have U3: ?U3 by simp
  have U4: ?U4 using upper_append by blast
  have R1: ?R1
  proof (intro allI impI)
    fix x old new assume "old \<noteq> [] \<and> \<not> occurs_in old x"
    then show "replace x old new = x"
      using replace_from_none[of old x new] replace_nonempty[of old x new] by metis
  qed
  have R2: ?R2
  proof (intro allI impI)
    fix p old r new assume h: "old \<noteq> [] \<and> \<not> occurs_in old (butlast (p @ old))"
    then have "replace_from old new (p @ old @ r) = p @ new @ replace_from old new r"
      using replace_from_leftmost[of old p new r] by blast
    moreover from h have "replace (p @ old @ r) old new = replace_from old new (p @ old @ r)"
        "replace r old new = replace_from old new r"
      by (simp_all add: replace_nonempty)
    ultimately show "replace (p @ old @ r) old new = p @ new @ replace r old new"
      by (simp only:)
  qed
  have E1: ?E1
    by (simp add: format_2f_def round_half_even_def str_nat.simps digit_char_def Let_def)
  have E2: ?E2
    by (simp add: char_upper_def lowercase_letters_def uppercase_letters_def)
  have E3: ?E3
    by (simp add: strip_markup_def replace_def backslash_n_def)
  show ?thesis
    by (intro conjI) (fact A F U1 U2 U3 U4 R1 R2 E1 E2 E3)+
qed

theorem field_transforms_witness:
  "CHR 0xB5 \<notin> set ''b'' \<and> CHR 0xFF \<notin> set ''b''
   \<and> (\<exists>out. combined_data
       (JObj [(''dbfId'', JInt 100), (''name'', JStr ''Thing''),
              (''text'', JStr (''Hello'' @ [CHR 0x5C, CHR ''n''] @ ''<b>World</b> <b>!</b>''))])
       (JObj [(''trinket_dbf_id'', JInt 100), (''avg_final_placement'', JFloat (23 / 10)),
              (''pick_rate'', JFloat (85 / 2)), (''tier'', JStr ''b''), (''group'', JInt 1),
              (''final_placement_distribution'', JArr [JInt 1, JInt 2])])
       (JInt 100) = Inr (JObj out)
     \<and> map_of out ''pick_rate'' = Some (JStr ''42.50%'')
     \<and> map_of out ''tier'' = Some (JStr ''B'')
     \<and> map_of out ''text'' = Some (JStr ''Hello World !''))"
proof -
  let ?text = "''Hello'' @ [CHR 0x5C, CHR ''n''] @ ''<b>World</b> <b>!</b>''"
  let ?card = "JObj [(''dbfId'', JInt 100), (''name'', JStr ''Thing''), (''text'', JStr ?text)]"
  let ?trinket = "JObj [(''trinket_dbf_id'', JInt 100), (''avg_final_placement'', JFloat (23 / 10)),
              (''pick_rate'', JFloat (85 / 2)), (''tier'', JStr ''b''), (''group'', JInt 1),
              (''final_placement_distribution'', JArr [JInt 1, JInt 2])]"
  have pd: "placement_dist ?trinket = Inr [(''1st'', JInt 1), (''2st'', JInt 2)]"
    by (simp add: placement_dist_def and_then_def dict_get_default_def placement_label_def
        str_nat.simps digit_char_def enumerate_eq_zip upt_rec)
  have a: "dict_get ?trinket ''pick_rate'' = Inr (Some (JFloat (85 / 2)))" by simp
  have b: "dict_get ?trinket ''tier'' = Inr (Some (JStr ''b''))" by simp
  have n: "CHR 0xB5 \<notin> set ''b''" "CHR 0xFF \<notin> set ''b''" by simp_all
  have c: "dict_get ?card ''text'' = Inr (Some (JStr ?text))" by simp
  note A = field_transforms[OF a b n c pd, of "JInt 100", THEN conjunct1]
  from A obtain out u where o: "combined_data ?card ?trinket (JInt 100) = Inr (JObj out)"
      "map_of out ''pick_rate'' = Some (JStr (format_2f (85 / 2) @ ''%''))"
      "upper ''b'' = Some u" "map_of out ''tier'' = Some (JStr u)"
      "map_of out ''text'' = Some (JStr
          (replace (replace (replace (replace (replace ?text [CHR 0x5C, CHR ''n''] '' '')
             ''<b>'' []) ''</b>'' []) ''<i>'' []) ''</i>'' []))"
    by blast
  have f: "format_2f (85 / 2) @ ''%'' = ''42.50%''"
    by (simp add: format_2f_def round_half_even_def str_nat.simps digit_char_def Let_def)
  have "upper ''b'' = Some ''B''"
    by (simp add: char_upper_def lowercase_letters_def uppercase_letters_def)
  with o(3) have u: "u = ''B''" by simp
  have r: "replace (replace (replace (replace (replace ?text [CHR 0x5C, CHR ''n''] '' '')
             ''<b>'' []) ''</b>'' []) ''<i>'' []) ''</i>'' [] = ''Hello World !''"
    by (simp add: replace_def)
  have "map_of out ''pick_rate'' = Some (JStr ''42.50%'')" using o(2) f by (simp only:)
  moreover have "map_of out ''tier'' = Some (JStr ''B'')" using o(4) u by (simp only:)
  moreover have "map_of out ''text'' = Some (JStr ''Hello World !'')" using o(5) r by (simp only:)
  ultimately show ?thesis using o(1) n by blast
qed

section \<open>The Card Catalog Loader\<close>

lemma emit_fields [simp]:
  "trace (emit ev w) = trace w @ [ev]"
  "cards_blob (emit ev w) = cards_blob w"
  "processed_blob (emit ev w) = processed_blob w"
  by (simp_all add: emit_def)

lemma logging_fields [simp]:
  "trace (logging l m w) = trace w @ [Log l m]"
  "cards_blob (logging l m w) = cards_blob w"
  "processed_blob (logging l m w) = processed_blob w"
  by (simp_all add: logging_def)

text \<open>A failed attempt on the cache: nothing but log lines and the download call.\<close>

lemma load_from_blob_None:
  assumes "load_from_blob env w = (None, w')"
  shows "cards_blob w' = cards_blob w \<and> processed_blob w' = processed_blob w
       \<and> trace w' = trace w @ [Log Info Loading_cards_from_blob, Blob_download,
                                  Log Warning Blob_read_failed]"
  using assms
  by (auto simp: load_from_blob_def Let_def split: if_splits option.splits blob.splits sum.splits)

lemma load_from_blob_Some:
  assumes "load_from_blob env w = (Some card_map, w')"
  shows "\<exists>card_data. cards_blob w = Some (Json card_data) \<and> \<not> blob_read_fails env
       \<and> build_card_map card_data = Inr card_map
       \<and> w' = emit Blob_download (logging Info Loading_cards_from_blob w)"
  using assms
  by (auto simp: load_from_blob_def Let_def split: if_splits option.splits blob.splits sum.splits)

lemma load_from_blob_hit:
  assumes "cards_blob w = Some (Json card_data)" "\<not> blob_read_fails env"
      and "build_card_map card_data = Inr card_map"
  shows "load_from_blob env w =
           (Some card_map, emit Blob_download (logging Info Loading_cards_from_blob w))"
  using assms by (simp add: load_from_blob_def Let_def)

lemma load_from_blob_miss:
  assumes "blob_read_fails env \<or> cards_blob w = None \<or> cards_blob w = Some Malformed
             \<or> (\<exists>d e. cards_blob w = Some (Json d) \<and> build_card_map d = Inl e)"
  shows "fst (load_from_blob env w) = None"
  using assms by (auto simp: load_from_blob_def Let_def)

lemma download_from_api_fetches:
  "count_list (trace (snd (download_from_api env w))) Get_card_data
     = count_list (trace w) Get_card_data + 1"
  by (simp add: download_from_api_def Let_def split: option.splits sum.splits)

lemma download_from_api_result:
  "(cards_response env = None \<longrightarrow>
       fst (download_from_api env w) = Inr (None, False)
     \<and> cards_blob (snd (download_from_api env w)) = cards_blob w)
   \<and> (\<forall>card_data. cards_response env = Some card_data \<longrightarrow>
        (cards_upload_fails env \<longrightarrow>
           fst (download_from_api env w) = Inl StorageError
         \<and> cards_blob (snd (download_from_api env w)) = cards_blob w)
      \<and> (\<not> cards_upload_fails env \<longrightarrow>
           cards_blob (snd (download_from_api env w)) = Some (Json card_data)
         \<and> fst (download_from_api env w) =
             (case build_card_map card_data of
                Inl e \<Rightarrow> Inl e
              | Inr card_map \<Rightarrow> Inr (Some card_map, True))))"
  by (simp add: download_from_api_def Let_def split: option.splits sum.splits)

lemma download_from_api_processed [simp]:
  "processed_blob (snd (download_from_api env w)) = processed_blob w"
  by (simp add: download_from_api_def Let_def split: option.splits sum.splits)

text \<open>
  Claim C4, as the code has it. For a call with \<open>force_update = False\<close> where the cache
  blob exists, is read and parsed, and the comprehension builds a catalog from the parsed
  payload, the loader returns that catalog with \<open>False\<close>; it logs one line and downloads
  the blob, the remote catalog source is not called and no blob changes.
\<close>

theorem cache_hit_returns_cached_catalog:
  assumes "cards_blob w = Some (Json card_data)"
      and "\<not> blob_read_fails env"
      and "build_card_map card_data = Inr card_map"
  shows "get_card_data_and_map env False w =
           (Inr (Some card_map, False),
            w\<lparr>trace := trace w @ [Log Info Loading_cards_from_blob, Blob_download]\<rparr>)
       \<and> count_list (trace (snd (get_card_data_and_map env False w))) Get_card_data
           = count_list (trace w) Get_card_data"
  using assms
  by (simp add: get_card_data_and_map_def load_from_blob_hit emit_def logging_def)

theorem cache_hit_returns_cached_catalog_witness:
  "get_card_data_and_map example_env False
       \<lparr>cards_blob = Some (Json (JArr [example_card])), processed_blob = None, trace = []\<rparr>
     = (Inr (Some [(KNum 100, example_card)], False),
        \<lparr>cards_blob = Some (Json (JArr [example_card])), processed_blob = None,
         trace = [Log Info Loading_cards_from_blob, Blob_download]\<rparr>)"
proof -
  have b: "build_card_map (JArr [example_card]) = Inr [(KNum 100, example_card)]"
    by (simp add: build_card_map_def and_then_def example_card_def)
  have r: "\<not> blob_read_fails example_env" by (simp add: example_env_def)
  from cache_hit_returns_cached_catalog
         [of "\<lparr>cards_blob = Some (Json (JArr [example_card])), processed_blob = None, trace = []\<rparr>"
             "JArr [example_card]" example_env, OF _ r b]
  show ?thesis by simp
qed

text \<open>
  A cache blob whose text parses, here to a list holding a card and \<open>null\<close>, while the
  comprehension fails on it: the loader does not return from the cache. It calls the
  remote source once and returns the remote catalog with \<open>True\<close>.
\<close>

theorem cache_parses_but_remote_is_called:
  "cards_blob
      \<lparr>cards_blob = Some (Json (JArr [example_card, JNull])), processed_blob = None, trace = []\<rparr>
     = Some (Json (JArr [example_card, JNull]))
   \<and> \<not> blob_read_fails example_env
   \<and> fst (get_card_data_and_map example_env False
        \<lparr>cards_blob = Some (Json (JArr [example_card, JNull])), processed_blob = None,
         trace = []\<rparr>)
       = Inr (Some [(KNum 100, example_card)], True)
   \<and> count_list (trace (snd (get_card_data_and_map example_env False
        \<lparr>cards_blob = Some (Json (JArr [example_card, JNull])), processed_blob = None,
         trace = []\<rparr>))) Get_card_data = 1"
  by (simp add: get_card_data_and_map_def load_from_blob_def download_from_api_def Let_def
      build_card_map_def and_then_def example_card_def example_env_def emit_def logging_def)

text \<open>
  Claim C5, as the code has it. For a call where \<open>force_update\<close> is true, the cache blob
  is absent, or reading, parsing or walking the cached payload fails: that failure does
  not end the load, and the remote source is called exactly once. When the request
  fails the loader returns \<open>(None, False)\<close> and the cache blob is as it was. When it
  gives a payload, the loader overwrites the cache blob with it; when that write
  succeeds the blob holds the payload, and the loader returns \<open>(catalog, True)\<close> if the
  comprehension builds a catalog from the payload, and raises the comprehension's
  exception if it does not.
\<close>

theorem cache_miss_fetches_remote_once:
  assumes "force_update \<or> cards_blob w = None \<or> blob_read_fails env
             \<or> cards_blob w = Some Malformed
             \<or> (\<exists>d e. cards_blob w = Some (Json d) \<and> build_card_map d = Inl e)"
  shows "count_list (trace (snd (get_card_data_and_map env force_update w))) Get_card_data
           = count_list (trace w) Get_card_data + 1
       \<and> (cards_response env = None \<longrightarrow>
             fst (get_card_data_and_map env force_update w) = Inr (None, False)
           \<and> cards_blob (snd (get_card_data_and_map env force_update w)) = cards_blob w)
       \<and> (\<forall>card_data. cards_response env = Some card_data \<and> \<not> cards_upload_fails env
            \<longrightarrow>
               cards_blob (snd (get_card_data_and_map env force_update w))
                 = Some (Json card_data)
             \<and> (\<forall>card_map. build_card_map card_data = Inr card_map \<longrightarrow>
                   fst (get_card_data_and_map env force_update w) = Inr (Some card_map, True))
             \<and> (\<forall>e. build_card_map card_data = Inl e \<longrightarrow>
                   fst (get_card_data_and_map env force_update w) = Inl e))"
proof -
  have "\<exists>w1. get_card_data_and_map env force_update w = download_from_api env w1
          \<and> cards_blob w1 = cards_blob w
          \<and> count_list (trace w1) Get_card_data = count_list (trace w) Get_card_data"
  proof (cases "\<not> force_update \<and> cards_blob w \<noteq> None")
    case False
    then show ?thesis by (auto simp: get_card_data_and_map_def)
  next
    case True
    with assms have "fst (load_from_blob env w) = None"
      by (intro load_from_blob_miss) auto
    then obtain w1 where l: "load_from_blob env w = (None, w1)"
      by (cases "load_from_blob env w") auto
    from load_from_blob_None[OF l] l True show ?thesis
      by (auto simp: get_card_data_and_map_def)
  qed
  then obtain w1 where g: "get_card_data_and_map env force_update w = download_from_api env w1"
    and c: "cards_blob w1 = cards_blob w"
    and n: "count_list (trace w1) Get_card_data = count_list (trace w) Get_card_data"
    by blast
  show ?thesis
    unfolding g using download_from_api_fetches[of env w1] download_from_api_result[of env w1] c n
    by (auto split: sum.splits)
qed

theorem cache_miss_fetches_remote_once_witness:
  "cards_blob empty_store = None
   \<and> get_card_data_and_map example_env False empty_store
     = (Inr (Some [(KNum 100, example_card)], True),
        \<lparr>cards_blob = Some (Json (JArr [example_card])), processed_blob = None,
         trace = [Log Info Downloading_cards, Get_card_data, Log Info Uploading_cards,
                  Upload_card_data (JArr [example_card])]\<rparr>)"
proof -
  have a: "False \<or> cards_blob empty_store = None \<or> blob_read_fails example_env
             \<or> cards_blob empty_store = Some Malformed
             \<or> (\<exists>d e. cards_blob empty_store = Some (Json d) \<and> build_card_map d = Inl e)"
    by (simp add: empty_store_def)
  have b: "build_card_map (JArr [example_card]) = Inr [(KNum 100, example_card)]"
    by (simp add: build_card_map_def and_then_def example_card_def)
  have r: "cards_response example_env = Some (JArr [example_card])"
      "\<not> cards_upload_fails example_env"
    by (simp_all add: example_env_def)
  from cache_miss_fetches_remote_once[OF a] r b
  have "fst (get_card_data_and_map example_env False empty_store)
          = Inr (Some [(KNum 100, example_card)], True)"
    by blast
  moreover have "snd (get_card_data_and_map example_env False empty_store)
      = \<lparr>cards_blob = Some (Json (JArr [example_card])), processed_blob = None,
         trace = [Log Info Downloading_cards, Get_card_data, Log Info Uploading_cards,
                  Upload_card_data (JArr [example_card])]\<rparr>"
    by (simp add: get_card_data_and_map_def download_from_api_def Let_def b
        example_env_def empty_store_def emit_def logging_def)
  ultimately show ?thesis by (simp add: prod_eq_iff empty_store_def)
qed

text \<open>
  Two calls on an absent cache where the request succeeds and the loader does not return
  \<open>(catalog, True)\<close>. In the first the payload is a list holding a card and \<open>null\<close>:
  the cache blob is overwritten with it, then the comprehension raises. In the second
  the payload is a card list and the write to the cache blob fails: the blob client's
  exception leaves the loader.
\<close>

theorem remote_success_but_loader_raises:
  "cards_blob empty_store = None
   \<and> cards_response (example_env\<lparr>cards_response := Some (JArr [example_card, JNull])\<rparr>)
       = Some (JArr [example_card, JNull])
   \<and> fst (get_card_data_and_map
            (example_env\<lparr>cards_response := Some (JArr [example_card, JNull])\<rparr>) False
            empty_store) = Inl TypeError
   \<and> cards_blob (snd (get_card_data_and_map
            (example_env\<lparr>cards_response := Some (JArr [example_card, JNull])\<rparr>) False
            empty_store)) = Some (Json (JArr [example_card, JNull]))
   \<and> cards_response (example_env\<lparr>cards_upload_fails := True\<rparr>) = Some (JArr [example_card])
   \<and> build_card_map (JArr [example_card]) = Inr [(KNum 100, example_card)]
   \<and> fst (get_card_data_and_map (example_env\<lparr>cards_upload_fails := True\<rparr>) False empty_store)
       = Inl StorageError"
  by (simp add: get_card_data_and_map_def download_from_api_def Let_def
      build_card_map_def and_then_def example_card_def example_env_def empty_store_def)

section \<open>The Job Driver: falsy results\<close>

lemma card_map_items_no_dbfId:
  "list_all (\<lambda>c. py_contains ''dbfId'' c = Inr False) cards \<Longrightarrow>
   card_map_items cards acc = Inr acc"
  by (induction cards arbitrary: acc) (simp_all add: and_then_def)

lemma get_trinket_stats_fields [simp]:
  "fst (get_trinket_stats env w) = stats_response env"
  "cards_blob (snd (get_trinket_stats env w)) = cards_blob w"
  "processed_blob (snd (get_trinket_stats env w)) = processed_blob w"
  by (simp_all add: get_trinket_stats_def Let_def split: option.splits)

lemma join_stats_falsy:
  assumes "stats_response env = None \<or> (stats_response env = Some s \<and> \<not> truthy s)"
  shows "fst (join_stats env card_map was_updated w) = HttpResponse_500 No_trinket_stats
       \<and> processed_blob (snd (join_stats env card_map was_updated w)) = processed_blob w"
proof (cases "get_trinket_stats env w")
  case (Pair r w1)
  then have r: "r = stats_response env" and p: "processed_blob w1 = processed_blob w"
    using get_trinket_stats_fields(1,3)[of env w] by simp_all
  show ?thesis using assms Pair r p
    by (auto simp: join_stats_def)
qed

text \<open>
  Claim C10. With the storage configured and reachable: when the loader returns an empty
  catalog the run ends with the same response as when it returns no catalog, and when
  the stats request gives a falsy object (an empty list among them) the run ends with
  the same response as when the request fails, without writing the result blob. The
  loader returns an empty catalog for an empty list and for a list none of whose records
  has a \<open>dbfId\<close>.
\<close>

theorem falsy_result_aborts_like_failed_fetch:
  assumes "connection_string env = Some cs" and "cs \<noteq> []" and "\<not> connect_fails env"
  shows "(\<forall>cm u w2. get_card_data_and_map env False (log_start env w) = (Inr (cm, u), w2)
            \<and> (cm = None \<or> cm = Some [])
            \<longrightarrow> main env w = (HttpResponse_500 No_card_data, w2))
       \<and> (\<forall>cm u w2 s. get_card_data_and_map env False (log_start env w) = (Inr (Some cm, u), w2)
            \<and> cm \<noteq> []
            \<and> (stats_response env = None \<or> (stats_response env = Some s \<and> \<not> truthy s))
            \<longrightarrow> fst (main env w) = HttpResponse_500 No_trinket_stats
              \<and> processed_blob (snd (main env w)) = processed_blob w2)
       \<and> build_card_map (JArr []) = Inr []
       \<and> (\<forall>cards. list_all (\<lambda>c. py_contains ''dbfId'' c = Inr False) cards
            \<longrightarrow> build_card_map (JArr cards) = Inr [])
       \<and> \<not> truthy (JArr [])"
proof -
  have 1: "main env w = (HttpResponse_500 No_card_data, w2)"
    if "get_card_data_and_map env False (log_start env w) = (Inr (cm, u), w2)"
      and "cm = None \<or> cm = Some []" for cm u w2
    using that assms by (auto simp: main_def Let_def)
  have 2: "fst (main env w) = HttpResponse_500 No_trinket_stats
         \<and> processed_blob (snd (main env w)) = processed_blob w2"
    if g: "get_card_data_and_map env False (log_start env w) = (Inr (Some cm, u), w2)"
      and ne: "cm \<noteq> []"
      and s: "stats_response env = None \<or> (stats_response env = Some s \<and> \<not> truthy s)"
    for cm u w2 s
  proof -
    have "main env w = join_stats env cm u w2"
      using g ne assms by (simp add: main_def Let_def)
    with join_stats_falsy[OF s, of cm u w2] show ?thesis by simp
  qed
  have 3: "build_card_map (JArr cards) = Inr []"
    if "list_all (\<lambda>c. py_contains ''dbfId'' c = Inr False) cards" for cards
    using that by (simp add: build_card_map_def and_then_def card_map_items_no_dbfId)
  from 1 2 3 show ?thesis
    by (simp add: build_card_map_def and_then_def) blast
qed

theorem falsy_result_aborts_like_failed_fetch_witness:
  "fst (main (example_env\<lparr>cards_response := Some (JArr [])\<rparr>) empty_store)
     = HttpResponse_500 No_card_data
   \<and> fst (main (example_env\<lparr>cards_response := None\<rparr>) empty_store)
     = HttpResponse_500 No_card_data
   \<and> fst (main (example_env\<lparr>stats_response := Some (JArr [])\<rparr>) empty_store)
     = HttpResponse_500 No_trinket_stats
   \<and> fst (main (example_env\<lparr>stats_response := None\<rparr>) empty_store)
     = HttpResponse_500 No_trinket_stats"
proof -
  have cfg: "connection_string (example_env\<lparr>cards_response := r\<rparr>)
               = Some ''UseDevelopmentStorage=true''"
      "\<not> connect_fails (example_env\<lparr>cards_response := r\<rparr>)"
      "connection_string (example_env\<lparr>stats_response := r\<rparr>)
               = Some ''UseDevelopmentStorage=true''"
      "\<not> connect_fails (example_env\<lparr>stats_response := r\<rparr>)" for r
    by (simp_all add: example_env_def)
  have ne: "''UseDevelopmentStorage=true'' \<noteq> []" by simp
  have l1: "fst (get_card_data_and_map (example_env\<lparr>cards_response := Some (JArr [])\<rparr>) False
              (log_start (example_env\<lparr>cards_response := Some (JArr [])\<rparr>) empty_store))
            = Inr (Some [], True)"
    by (simp add: get_card_data_and_map_def download_from_api_def Let_def log_start_def
        build_card_map_def and_then_def example_env_def empty_store_def)
  have l2: "fst (get_card_data_and_map (example_env\<lparr>cards_response := None\<rparr>) False
              (log_start (example_env\<lparr>cards_response := None\<rparr>) empty_store))
            = Inr (None, False)"
    by (simp add: get_card_data_and_map_def download_from_api_def Let_def log_start_def
        example_env_def empty_store_def)
  have l3: "fst (get_card_data_and_map (example_env\<lparr>stats_response := r\<rparr>) False
              (log_start (example_env\<lparr>stats_response := r\<rparr>) empty_store))
            = Inr (Some [(KNum 100, example_card)], True)" for r
    by (simp add: get_card_data_and_map_def download_from_api_def Let_def log_start_def
        build_card_map_def and_then_def example_env_def empty_store_def example_card_def)
  have s: "stats_response (example_env\<lparr>stats_response := r\<rparr>) = r" for r
    by simp
  note T = falsy_result_aborts_like_failed_fetch
  from T[OF cfg(1) ne cfg(2), of "Some (JArr [])" empty_store] l1
  have a: "fst (main (example_env\<lparr>cards_response := Some (JArr [])\<rparr>) empty_store)
     = HttpResponse_500 No_card_data"
    by (metis fst_conv prod.collapse)
  from T[OF cfg(1) ne cfg(2), of None empty_store] l2
  have b: "fst (main (example_env\<lparr>cards_response := None\<rparr>) empty_store)
     = HttpResponse_500 No_card_data"
    by (metis fst_conv prod.collapse)
  from T[OF cfg(3) ne cfg(4), of "Some (JArr [])" empty_store] l3[of "Some (JArr [])"] s
  have c: "fst (main (example_env\<lparr>stats_response := Some (JArr [])\<rparr>) empty_store)
     = HttpResponse_500 No_trinket_stats"
    by (metis list.discI prod.collapse truthy.simps(6))
  from T[OF cfg(3) ne cfg(4), of None empty_store] l3[of None] s
  have d: "fst (main (example_env\<lparr>stats_response := None\<rparr>) empty_store)
     = HttpResponse_500 No_trinket_stats"
    by (metis list.discI prod.collapse)
  from a b c d show ?thesis by simp
qed

section \<open>The forced reload\<close>

lemma any_missing_stat_records:
  "list_all is_stat_record ts \<Longrightarrow>
   any_missing card_map ts = Inr (list_ex (key_absent card_map) ts)"
proof (induction ts)
  case Nil
  then show ?case by simp
next
  case (Cons t ts)
  from Cons.prems obtain k where k: "join_key t = Inr k"
    by (auto simp: is_stat_record_def split: sum.splits)
  then obtain v where v: "dict_get t ''trinket_dbf_id'' = Inr v" "hkey_of (none_to_null v) = Inr k"
    by (auto simp: join_key_def and_then_def split: sum.splits)
  from Cons show ?case
    using k v by (auto simp: and_then_def key_absent_def)
qed

lemma get_card_data_and_map_forced:
  "get_card_data_and_map env True w = download_from_api env w"
  by (simp add: get_card_data_and_map_def)

lemma download_from_api_no_forcing:
  "count_list (trace (snd (download_from_api env w))) (Log Info Forcing_card_update)
     = count_list (trace w) (Log Info Forcing_card_update)"
  by (simp add: download_from_api_def Let_def split: option.splits sum.splits)

lemma load_from_blob_counts:
  "count_list (trace (snd (load_from_blob env w))) Get_card_data
     = count_list (trace w) Get_card_data"
  "count_list (trace (snd (load_from_blob env w))) (Log Info Forcing_card_update)
     = count_list (trace w) (Log Info Forcing_card_update)"
  by (simp_all add: load_from_blob_def Let_def split: option.splits blob.splits sum.splits)

text \<open>The first load of a run: one request when it answers \<open>True\<close>, none when it answers
  with a catalog and \<open>False\<close>.\<close>

lemma first_load_counts:
  assumes "get_card_data_and_map env False w = (Inr (Some card_map, was_updated), w')"
  shows "count_list (trace w') Get_card_data
           = count_list (trace w) Get_card_data + (if was_updated then 1 else 0)"
    and "count_list (trace w') (Log Info Forcing_card_update)
           = count_list (trace w) (Log Info Forcing_card_update)"
proof -
  show "count_list (trace w') Get_card_data
           = count_list (trace w) Get_card_data + (if was_updated then 1 else 0)"
  proof (cases "cards_blob w \<noteq> None")
    case False
    with assms have d: "download_from_api env w = (Inr (Some card_map, was_updated), w')"
      by (simp add: get_card_data_and_map_def)
    then have "was_updated"
      using download_from_api_result[of env w]
      by (cases "cards_response env") (auto split: sum.splits if_splits)
    with download_from_api_fetches[of env w] d show ?thesis by simp
  next
    case True
    show ?thesis
    proof (cases "load_from_blob env w")
      case (Pair r w1)
      show ?thesis
      proof (cases r)
        case None
        with Pair True assms
        have d: "download_from_api env w1 = (Inr (Some card_map, was_updated), w')"
          by (simp add: get_card_data_and_map_def)
        then have "was_updated"
          using download_from_api_result[of env w1]
          by (cases "cards_response env") (auto split: sum.splits if_splits)
        with download_from_api_fetches[of env w1] d load_from_blob_counts(1)[of env w] Pair
        show ?thesis by simp
      next
        case (Some m)
        with Pair True assms have "w' = w1" "\<not> was_updated"
          by (simp_all add: get_card_data_and_map_def)
        with load_from_blob_counts(1)[of env w] Pair show ?thesis by simp
      qed
    qed
  qed
  show "count_list (trace w') (Log Info Forcing_card_update)
           = count_list (trace w) (Log Info Forcing_card_update)"
  proof (cases "cards_blob w \<noteq> None")
    case False
    with assms have "download_from_api env w = (Inr (Some card_map, was_updated), w')"
      by (simp add: get_card_data_and_map_def)
    with download_from_api_no_forcing[of env w] show ?thesis by simp
  next
    case True
    show ?thesis
    proof (cases "load_from_blob env w")
      case (Pair r w1)
      show ?thesis
      proof (cases r)
        case None
        with Pair True assms
        have "download_from_api env w1 = (Inr (Some card_map, was_updated), w')"
          by (simp add: get_card_data_and_map_def)
        with download_from_api_no_forcing[of env w1] load_from_blob_counts(2)[of env w] Pair
        show ?thesis by simp
      next
        case (Some m)
        with Pair True assms have "w' = w1"
          by (simp_all add: get_card_data_and_map_def)
        with load_from_blob_counts(2)[of env w] Pair show ?thesis by simp
      qed
    qed
  qed
qed

lemma refresh_if_missing_counts:
  assumes "list_all is_stat_record ts"
  shows "count_list (trace (snd (refresh_if_missing env card_map was_updated (JArr ts) w)))
             (Log Info Forcing_card_update)
           = count_list (trace w) (Log Info Forcing_card_update)
             + (if list_ex (key_absent card_map) ts \<and> \<not> was_updated then 1 else 0)"
    and "count_list (trace (snd (refresh_if_missing env card_map was_updated (JArr ts) w)))
             Get_card_data
           = count_list (trace w) Get_card_data
             + (if list_ex (key_absent card_map) ts \<and> \<not> was_updated then 1 else 0)"
proof -
  let ?w1 = "logging Info Forcing_card_update w"
  have m: "missing_trinkets_exist card_map (JArr ts) = Inr (list_ex (key_absent card_map) ts)"
    using assms by (simp add: missing_trinkets_exist_def and_then_def any_missing_stat_records)
  have s: "snd (refresh_if_missing env card_map was_updated (JArr ts) w)
      = (if list_ex (key_absent card_map) ts \<and> \<not> was_updated
         then snd (download_from_api env ?w1) else w)"
    by (cases "download_from_api env ?w1")
       (auto simp: refresh_if_missing_def m get_card_data_and_map_forced
             split: sum.splits option.splits prod.splits)
  show "count_list (trace (snd (refresh_if_missing env card_map was_updated (JArr ts) w)))
             (Log Info Forcing_card_update)
           = count_list (trace w) (Log Info Forcing_card_update)
             + (if list_ex (key_absent card_map) ts \<and> \<not> was_updated then 1 else 0)"
    unfolding s using download_from_api_no_forcing[of env ?w1] by simp
  show "count_list (trace (snd (refresh_if_missing env card_map was_updated (JArr ts) w)))
             Get_card_data
           = count_list (trace w) Get_card_data
             + (if list_ex (key_absent card_map) ts \<and> \<not> was_updated then 1 else 0)"
    unfolding s using download_from_api_fetches[of env ?w1] by simp
qed

text \<open>The loop only logs warnings about records it cannot match, and touches no blob.\<close>

lemma process_trinkets_world:
  "cards_blob (snd (process_trinkets card_map ts acc w)) = cards_blob w
   \<and> processed_blob (snd (process_trinkets card_map ts acc w)) = processed_blob w
   \<and> ((\<forall>d. ev \<noteq> Log Warning (Trinket_not_found d)) \<longrightarrow>
        count_list (trace (snd (process_trinkets card_map ts acc w))) ev
          = count_list (trace w) ev)"
proof (induction ts arbitrary: acc w)
  case Nil
  then show ?case by simp
next
  case (Cons t ts)
  show ?case
  proof (cases "find_card card_map t")
    case (Inl e)
    then show ?thesis by simp
  next
    case (Inr p)
    obtain dbf_id card_info where p: "p = (dbf_id, card_info)" by (cases p)
    show ?thesis
    proof (cases "truthy card_info")
      case True
      then show ?thesis using Inr p Cons.IH
        by (cases "combined_data card_info t dbf_id") simp_all
    next
      case False
      then show ?thesis
        using Inr p Cons.IH[of acc "logging Warning (Trinket_not_found dbf_id) w"]
        by auto
    qed
  qed
qed

lemma save_processed_counts:
  "count_list (trace (snd (save_processed env out w))) Get_card_data
     = count_list (trace w) Get_card_data"
  "count_list (trace (snd (save_processed env out w))) (Log Info Forcing_card_update)
     = count_list (trace w) (Log Info Forcing_card_update)"
  by (simp_all add: save_processed_def Let_def)

lemma process_and_save_counts:
  "count_list (trace (snd (process_and_save env card_map stats w))) Get_card_data
     = count_list (trace w) Get_card_data"
  "count_list (trace (snd (process_and_save env card_map stats w))) (Log Info Forcing_card_update)
     = count_list (trace w) (Log Info Forcing_card_update)"
proof -
  have "count_list (trace (snd (process_and_save env card_map stats w))) ev
          = count_list (trace w) ev"
    if ev: "ev = Get_card_data \<or> ev = Log Info Forcing_card_update" for ev
  proof (cases "py_iter stats")
    case (Inl e)
    then show ?thesis by (simp add: process_and_save_def)
  next
    case (Inr ts)
    obtain r w1 where l: "process_trinkets card_map ts [] w = (r, w1)"
      by (cases "process_trinkets card_map ts [] w")
    from ev have "\<forall>d. ev \<noteq> Log Warning (Trinket_not_found d)" by auto
    with process_trinkets_world[of card_map ts "[]" w ev] l
    have c: "count_list (trace w1) ev = count_list (trace w) ev" by simp
    have sv: "count_list (trace (snd (save_processed env out w1))) ev = count_list (trace w1) ev"
      for out using ev save_processed_counts[of env out w1] by auto
    show ?thesis using Inr l c sv
      by (auto simp: process_and_save_def split: sum.splits)
  qed
  then show "count_list (trace (snd (process_and_save env card_map stats w))) Get_card_data
     = count_list (trace w) Get_card_data"
    and "count_list (trace (snd (process_and_save env card_map stats w)))
       (Log Info Forcing_card_update) = count_list (trace w) (Log Info Forcing_card_update)"
    by simp_all
qed

lemma log_start_counts [simp]:
  "count_list (trace (log_start env w)) Get_card_data = count_list (trace w) Get_card_data"
  "count_list (trace (log_start env w)) (Log Info Forcing_card_update)
     = count_list (trace w) (Log Info Forcing_card_update)"
  by (simp_all add: log_start_def)

lemma get_trinket_stats_counts [simp]:
  "count_list (trace (snd (get_trinket_stats env w))) Get_card_data
     = count_list (trace w) Get_card_data"
  "count_list (trace (snd (get_trinket_stats env w))) (Log Info Forcing_card_update)
     = count_list (trace w) (Log Info Forcing_card_update)"
  by (simp_all add: get_trinket_stats_def Let_def split: option.splits)

text \<open>
  Claim C1. Take a run that reaches line 88: the storage is configured and reachable,
  the first load returned a non-empty \<open>card_map\<close> with \<open>was_updated\<close>, and the stats are
  a non-empty list of stat records. The run forces a reload (it logs so, once) if and
  only if the join key of some record is absent from \<open>card_map\<close> and \<open>was_updated\<close> is
  false. In that case the forced reload makes exactly one request to the remote catalog
  source, and the request is made before the loop over the records starts; otherwise
  none is made after the first load. With \<open>was_updated\<close> true the first load has made
  the only request of the run.
\<close>

theorem forced_reload_iff_missing_and_not_fresh:
  assumes "connection_string env = Some cs" and "cs \<noteq> []" and "\<not> connect_fails env"
      and "get_card_data_and_map env False (log_start env w)
             = (Inr (Some card_map, was_updated), w2)"
      and "card_map \<noteq> []"
      and "stats_response env = Some (JArr ts)" and "ts \<noteq> []"
      and "list_all is_stat_record ts"
  shows "count_list (trace (snd (main env w))) (Log Info Forcing_card_update)
           = count_list (trace w) (Log Info Forcing_card_update)
             + (if list_ex (key_absent card_map) ts \<and> \<not> was_updated then 1 else 0)
       \<and> count_list (trace (snd (main env w))) Get_card_data
           = count_list (trace w2) Get_card_data
             + (if list_ex (key_absent card_map) ts \<and> \<not> was_updated then 1 else 0)
       \<and> count_list (trace w2) Get_card_data
           = count_list (trace w) Get_card_data + (if was_updated then 1 else 0)
       \<and> count_list (trace (snd (refresh_if_missing env card_map was_updated (JArr ts)
              (snd (get_trinket_stats env w2))))) Get_card_data
           = count_list (trace (snd (main env w))) Get_card_data"
proof -
  obtain w3 where g: "get_trinket_stats env w2 = (Some (JArr ts), w3)"
    using get_trinket_stats_fields(1)[of env w2] assms(6)
    by (cases "get_trinket_stats env w2") simp
  then have w3: "snd (get_trinket_stats env w2) = w3" by simp
  let ?rf = "refresh_if_missing env card_map was_updated (JArr ts) w3"
  let ?n = "if list_ex (key_absent card_map) ts \<and> \<not> was_updated then 1 else 0 :: nat"
  have m: "main env w = join_stats env card_map was_updated w2"
    using assms(1-5) by (simp add: main_def Let_def)
  have j: "snd (join_stats env card_map was_updated w2)
      = (case fst ?rf of Inl out \<Rightarrow> snd ?rf
         | Inr cm \<Rightarrow> snd (process_and_save env cm (JArr ts) (snd ?rf)))"
    using g assms(7)
    by (cases ?rf) (auto simp: join_stats_def split: sum.splits)
  have c: "count_list (trace (snd (main env w))) ev = count_list (trace (snd ?rf)) ev"
    if "ev = Get_card_data \<or> ev = Log Info Forcing_card_update" for ev
    unfolding m j using that process_and_save_counts
    by (cases "fst ?rf") auto
  have l: "count_list (trace w2) Get_card_data
             = count_list (trace w) Get_card_data + (if was_updated then 1 else 0)"
      "count_list (trace w2) (Log Info Forcing_card_update)
             = count_list (trace w) (Log Info Forcing_card_update)"
    using first_load_counts[OF assms(4)] by simp_all
  have t: "count_list (trace w3) Get_card_data = count_list (trace w2) Get_card_data"
      "count_list (trace w3) (Log Info Forcing_card_update)
         = count_list (trace w2) (Log Info Forcing_card_update)"
    using get_trinket_stats_counts[of env w2] unfolding w3 by simp_all
  have r: "count_list (trace (snd ?rf)) (Log Info Forcing_card_update)
             = count_list (trace w2) (Log Info Forcing_card_update) + ?n"
      "count_list (trace (snd ?rf)) Get_card_data = count_list (trace w2) Get_card_data + ?n"
    using refresh_if_missing_counts[OF assms(8), of env card_map was_updated w3] t by simp_all
  from c[of Get_card_data] c[of "Log Info Forcing_card_update"] l r show ?thesis
    unfolding w3 by simp
qed

theorem forced_reload_iff_missing_and_not_fresh_witness:
  "list_all is_stat_record [example_stat]
   \<and> list_ex (key_absent [(KNum 7, old_card)]) [example_stat]
   \<and> count_list (trace (snd (main example_env stale_store))) (Log Info Forcing_card_update) = 1
   \<and> count_list (trace (snd (main example_env stale_store))) Get_card_data = 1"
proof -
  let ?w2 = "\<lparr>cards_blob = Some (Json (JArr [old_card])), processed_blob = None,
              trace = [Log Info Timer_executed, Log Info Loading_cards_from_blob,
                       Blob_download]\<rparr>"
  have cfg: "connection_string example_env = Some ''UseDevelopmentStorage=true''"
      "''UseDevelopmentStorage=true'' \<noteq> []" "\<not> connect_fails example_env"
    by (simp_all add: example_env_def)
  have b: "build_card_map (JArr [old_card]) = Inr [(KNum 7, old_card)]"
    by (simp add: build_card_map_def and_then_def old_card_def)
  have ld: "get_card_data_and_map example_env False (log_start example_env stale_store)
              = (Inr (Some [(KNum 7, old_card)], False), ?w2)"
    by (simp add: get_card_data_and_map_def load_from_blob_def Let_def log_start_def b
        stale_store_def example_env_def emit_def logging_def)
  have ne: "[(KNum 7, old_card)] \<noteq> []" "[example_stat] \<noteq> []" by simp_all
  have st: "stats_response example_env = Some (JArr [example_stat])"
    by (simp add: example_env_def)
  have sr: "list_all is_stat_record [example_stat]"
    by (simp add: is_stat_record_def join_key_def and_then_def example_stat_def none_to_null_def)
  have ab: "list_ex (key_absent [(KNum 7, old_card)]) [example_stat]"
    by (simp add: key_absent_def join_key_def and_then_def example_stat_def none_to_null_def)
  have tr: "trace stale_store = []" by (simp add: stale_store_def)
  from forced_reload_iff_missing_and_not_fresh[OF cfg ld ne(1) st ne(2) sr] ab tr sr
  show ?thesis by simp
qed

section \<open>The join\<close>

text \<open>What the loop computes does not depend on the blobs or on the log.\<close>

lemma process_trinkets_fst:
  "fst (process_trinkets card_map ts acc w) = fst (process_trinkets card_map ts acc w')"
proof (induction ts arbitrary: acc w w')
  case Nil
  then show ?case by simp
next
  case (Cons t ts)
  show ?case
  proof (cases "find_card card_map t")
    case (Inl e)
    then show ?thesis by simp
  next
    case (Inr p)
    obtain dbf_id card_info where p: "p = (dbf_id, card_info)" by (cases p)
    show ?thesis
    proof (cases "truthy card_info")
      case True
      then show ?thesis using Inr p Cons.IH
        by (cases "combined_data card_info t dbf_id") simp_all
    next
      case False
      then show ?thesis using Inr p Cons.IH by simp
    qed
  qed
qed




text \<open>Lines 95 to 127 in terms of the loop: how the run ends and what the result blob
  holds afterwards.\<close>

lemma save_processed_fields [simp]:
  "fst (save_processed env out w) = Returned_None"
  "cards_blob (snd (save_processed env out w)) = cards_blob w"
  "processed_blob (snd (save_processed env out w))
     = (if processed_upload_fails env then processed_blob w else Some (Json (JArr out)))"
  by (simp_all add: save_processed_def Let_def)

lemma process_and_save_char:
  assumes "py_iter stats = Inr ts"
  shows "fst (process_and_save env card_map stats w)
           = (case fst (process_trinkets card_map ts [] w) of
                Inl e \<Rightarrow> Raised e
              | Inr ps \<Rightarrow>
                  (case sorted_by_avg_placement ps of
                     Inl e \<Rightarrow> Raised e
                   | Inr out \<Rightarrow> Returned_None))"
    and "processed_blob (snd (process_and_save env card_map stats w))
           = (case fst (process_trinkets card_map ts [] w) of
                Inl e \<Rightarrow> processed_blob w
              | Inr ps \<Rightarrow>
                  (case sorted_by_avg_placement ps of
                     Inl e \<Rightarrow> processed_blob w
                   | Inr out \<Rightarrow>
                       if processed_upload_fails env then processed_blob w
                       else Some (Json (JArr out))))"
    and "cards_blob (snd (process_and_save env card_map stats w)) = cards_blob w"
proof -
  obtain r w1 where l: "process_trinkets card_map ts [] w = (r, w1)"
    by (cases "process_trinkets card_map ts [] w")
  from process_trinkets_world[of card_map ts "[]" w] l
  have b: "cards_blob w1 = cards_blob w" "processed_blob w1 = processed_blob w" by simp_all
  show "fst (process_and_save env card_map stats w)
           = (case fst (process_trinkets card_map ts [] w) of
                Inl e \<Rightarrow> Raised e
              | Inr ps \<Rightarrow>
                  (case sorted_by_avg_placement ps of
                     Inl e \<Rightarrow> Raised e
                   | Inr out \<Rightarrow> Returned_None))"
    using assms l by (simp add: process_and_save_def split: sum.splits)
  show "processed_blob (snd (process_and_save env card_map stats w))
           = (case fst (process_trinkets card_map ts [] w) of
                Inl e \<Rightarrow> processed_blob w
              | Inr ps \<Rightarrow>
                  (case sorted_by_avg_placement ps of
                     Inl e \<Rightarrow> processed_blob w
                   | Inr out \<Rightarrow>
                       if processed_upload_fails env then processed_blob w
                       else Some (Json (JArr out))))"
    using assms l b by (simp add: process_and_save_def split: sum.splits)
  show "cards_blob (snd (process_and_save env card_map stats w)) = cards_blob w"
    using assms l b by (simp add: process_and_save_def split: sum.splits)
qed


lemma build_example_card:
  "build_card_map (JArr [example_card]) = Inr [(KNum 100, example_card)]"
  by (simp add: build_card_map_def and_then_def example_card_def)

lemma combined_example:
  "combined_data example_card example_stat (JInt 100) = Inr example_processed"
  by (simp add: combined_data_def and_then_def placement_dist_def dict_get_default_def
      placement_label_def str_nat.simps digit_char_def enumerate_eq_zip upt_rec format_2f_def
      round_half_even_def Let_def char_upper_def lowercase_letters_def uppercase_letters_def strip_markup_def replace_def
      backslash_n_def none_to_null_def example_card_def example_stat_def example_processed_def)

lemma combined_second:
  "combined_data example_card second_stat (JInt 100) = Inr second_processed"
  by (simp add: combined_data_def and_then_def placement_dist_def dict_get_default_def
      placement_label_def str_nat.simps digit_char_def enumerate_eq_zip upt_rec format_2f_def
      round_half_even_def Let_def char_upper_def lowercase_letters_def uppercase_letters_def strip_markup_def replace_def
      backslash_n_def none_to_null_def example_card_def second_stat_def second_processed_def)

lemma find_example:
  "find_card [(KNum 100, example_card)] example_stat = Inr (JInt 100, example_card)"
  "find_card [(KNum 100, example_card)] second_stat = Inr (JInt 100, example_card)"
  "truthy example_card"
  by (simp_all add: find_card_def and_then_def none_to_null_def example_stat_def
      second_stat_def example_card_def)


section \<open>The sort\<close>

lemma with_keys_char:
  "with_keys ps = Inr kxs \<Longrightarrow> kxs = map (\<lambda>x. (avg_placement x, x)) ps"
proof (induction ps arbitrary: kxs)
  case Nil
  then show ?case by simp
next
  case (Cons x xs)
  from Cons.prems obtain k rest where k: "py_getitem x ''avg_placement'' = Inr k"
    and r: "with_keys xs = Inr rest" and e: "kxs = (k, x) # rest"
    by (auto simp: and_then_def split: sum.splits)
  from k have "avg_placement x = k" by (simp add: avg_placement_def)
  with Cons.IH[OF r] e show ?case by simp
qed

lemma sorted_short: "length xs \<le> 1 \<Longrightarrow> sorted (xs :: rat list)"
  by (cases xs) auto

text \<open>Whenever the sort returns and the keys of its result are numbers, the result is in
  non-decreasing order of the keys.\<close>

lemma sorted_by_avg_placement_sorted:
  assumes "sorted_by_avg_placement ps = Inr out"
      and "list_all (\<lambda>x. is_num (avg_placement x)) out"
  shows "sorted (map (\<lambda>x. num_val (avg_placement x)) out)"
proof -
  from assms(1) obtain kxs where wk: "with_keys ps = Inr kxs"
    by (auto simp: sorted_by_avg_placement_def and_then_def split: sum.splits)
  note kxs = with_keys_char[OF wk]
  have key: "fst kx = avg_placement (snd kx)" if "kx \<in> set kxs" for kx
    using that unfolding kxs by auto
  show ?thesis
  proof (cases "length kxs \<le> 1")
    case True
    with assms(1) wk have "out = map snd kxs"
      by (simp add: sorted_by_avg_placement_def and_then_def)
    with True show ?thesis by (intro sorted_short) simp
  next
    case long: False
    show ?thesis
    proof (cases "list_all (\<lambda>kx. is_num (fst kx)) kxs")
      case True
      let ?s = "sort_key (\<lambda>kx. num_val (fst kx)) kxs"
      from assms(1) wk long True have out: "out = map snd ?s"
        by (simp add: sorted_by_avg_placement_def and_then_def)
      have "map (\<lambda>x. num_val (avg_placement x)) out
              = map (\<lambda>kx. num_val (avg_placement (snd kx))) ?s"
        unfolding out by (simp add: comp_def)
      also have "\<dots> = map (\<lambda>kx. num_val (fst kx)) ?s"
        by (rule map_cong) (simp_all add: key)
      finally show ?thesis by simp
    next
      case notnum: False
      show ?thesis
      proof (cases "list_all (\<lambda>kx. is_str (fst kx)) kxs")
        case True
        let ?s = "sort_key (\<lambda>kx. str_val (fst kx)) kxs"
        from assms(1) wk long notnum True have out: "out = map snd ?s"
          by (simp add: sorted_by_avg_placement_def and_then_def)
        from long obtain kx where kx: "kx \<in> set kxs" by (cases kxs) auto
        with True have "is_str (avg_placement (snd kx))"
          by (auto simp: list_all_iff key)
        moreover from kx have "snd kx \<in> set out" unfolding out by auto
        with assms(2) have "is_num (avg_placement (snd kx))" by (auto simp: list_all_iff)
        ultimately show ?thesis by (cases "avg_placement (snd kx)") auto
      next
        case False
        with assms(1) wk long notnum show ?thesis
          by (simp add: sorted_by_avg_placement_def and_then_def split: if_splits)
      qed
    qed
  qed
qed

text \<open>A run that reaches the end of \<open>main\<close> has gone through lines 95 to 127.\<close>

lemma main_Returned_None:
  assumes "main env w = (Returned_None, w')"
  shows "\<exists>card_map stats w1. process_and_save env card_map stats w1 = (Returned_None, w')"
  using assms
  by (auto simp: main_def join_stats_def refresh_if_missing_def Let_def
      split: if_splits prod.splits sum.splits option.splits)

lemma process_and_save_Returned_None:
  assumes "process_and_save env card_map stats w = (Returned_None, w')"
  shows "\<exists>ps out. sorted_by_avg_placement ps = Inr out
       \<and> processed_blob w'
           = (if processed_upload_fails env then processed_blob w else Some (Json (JArr out)))"
proof (cases "py_iter stats")
  case (Inl e)
  with assms show ?thesis by (simp add: process_and_save_def)
next
  case (Inr ts)
  from process_and_save_char(1,2)[OF Inr, of env card_map w] assms
  show ?thesis by (auto split: sum.splits)
qed

text \<open>
  Claim C8. Whenever a run reaches the end of \<open>main\<close> and the write of the result
  succeeds, the result blob holds a list of Processed Trinkets, and if their
  \<open>avg_placement\<close> values are numbers the list is in non-decreasing order of them.
\<close>

theorem output_sorted_by_avg_placement:
  assumes "main env w = (Returned_None, w')"
      and "\<not> processed_upload_fails env"
  shows "\<exists>out. processed_blob w' = Some (Json (JArr out))
           \<and> (list_all (\<lambda>x. is_num (avg_placement x)) out
                \<longrightarrow> sorted (map (\<lambda>x. num_val (avg_placement x)) out))"
proof -
  from main_Returned_None[OF assms(1)] obtain card_map stats w1
    where "process_and_save env card_map stats w1 = (Returned_None, w')" by blast
  from process_and_save_Returned_None[OF this] assms(2) obtain ps out
    where s: "sorted_by_avg_placement ps = Inr out"
      and b: "processed_blob w' = Some (Json (JArr out))"
    by auto
  from b sorted_by_avg_placement_sorted[OF s] show ?thesis by blast
qed

text \<open>A run on an empty cache, with working surroundings, up to the loop.\<close>

lemma main_on_empty_cache:
  assumes "connection_string env = Some cs" and "cs \<noteq> []" and "\<not> connect_fails env"
      and "cards_blob w = None"
      and "cards_response env = Some card_data" and "\<not> cards_upload_fails env"
      and "build_card_map card_data = Inr card_map" and "card_map \<noteq> []"
      and "stats_response env = Some stats" and "truthy stats"
      and "missing_trinkets_exist card_map stats = Inr b"
  shows "\<exists>w3. main env w = process_and_save env card_map stats w3
           \<and> processed_blob w3 = processed_blob w
           \<and> cards_blob w3 = Some (Json card_data)"
proof -
  let ?w1 = "log_start env w"
  have c: "cards_blob ?w1 = None" "processed_blob ?w1 = processed_blob w"
    using assms(4) by (simp_all add: log_start_def)
  obtain w2 where l: "get_card_data_and_map env False ?w1 = (Inr (Some card_map, True), w2)"
    and w2: "processed_blob w2 = processed_blob w" "cards_blob w2 = Some (Json card_data)"
    using c assms(5,6,7)
    by (simp add: get_card_data_and_map_def download_from_api_def Let_def)
  obtain w3 where g: "get_trinket_stats env w2 = (Some stats, w3)"
    and w3: "processed_blob w3 = processed_blob w2" "cards_blob w3 = cards_blob w2"
    using assms(9) get_trinket_stats_fields[of env w2]
    by (cases "get_trinket_stats env w2") simp
  have "main env w = join_stats env card_map True w2"
    using assms(1,2,3,8) l by (simp add: main_def Let_def)
  also have "\<dots> = process_and_save env card_map stats w3"
    using g assms(10,11) by (simp add: join_stats_def refresh_if_missing_def)
  finally show ?thesis using w2 w3 by auto
qed

lemma main_two_stats:
  "fst (main two_stats_env empty_store) = Returned_None"
  "processed_blob (snd (main two_stats_env empty_store))
     = Some (Json (JArr [example_processed, second_processed]))"
proof -
  have cfg: "connection_string two_stats_env = Some ''UseDevelopmentStorage=true''"
      "''UseDevelopmentStorage=true'' \<noteq> []" "\<not> connect_fails two_stats_env"
      "cards_blob empty_store = None"
      "cards_response two_stats_env = Some (JArr [example_card])"
      "\<not> cards_upload_fails two_stats_env"
    by (simp_all add: two_stats_env_def example_env_def empty_store_def)
  have st: "stats_response two_stats_env = Some (JArr [second_stat, example_stat])"
      "truthy (JArr [second_stat, example_stat])"
      "\<not> processed_upload_fails two_stats_env"
    by (simp_all add: two_stats_env_def example_env_def)
  have ne: "[(KNum 100, example_card)] \<noteq> []" by simp
  have ms: "missing_trinkets_exist [(KNum 100, example_card)] (JArr [second_stat, example_stat])
              = Inr False"
    by (simp add: missing_trinkets_exist_def and_then_def none_to_null_def
        second_stat_def example_stat_def)
  from main_on_empty_cache[OF cfg build_example_card ne st(1,2) ms]
  obtain w3 where m: "main two_stats_env empty_store
        = process_and_save two_stats_env [(KNum 100, example_card)]
            (JArr [second_stat, example_stat]) w3"
    by blast
  have i: "py_iter (JArr [second_stat, example_stat]) = Inr [second_stat, example_stat]"
    by simp
  have l: "fst (process_trinkets [(KNum 100, example_card)] [second_stat, example_stat] [] w3)
             = Inr [second_processed, example_processed]"
    by (simp add: find_example combined_example combined_second)
  have s: "sorted_by_avg_placement [second_processed, example_processed]
             = Inr [example_processed, second_processed]"
    by (simp add: sorted_by_avg_placement_def and_then_def example_processed_def
        second_processed_def)
  show "fst (main two_stats_env empty_store) = Returned_None"
    unfolding m by (simp add: process_and_save_char(1)[OF i] l s del: process_trinkets.simps)
  show "processed_blob (snd (main two_stats_env empty_store))
     = Some (Json (JArr [example_processed, second_processed]))"
    unfolding m
    by (simp add: process_and_save_char(2)[OF i] l s st(3) del: process_trinkets.simps)
qed

theorem output_sorted_by_avg_placement_witness:
  "fst (main two_stats_env empty_store) = Returned_None
   \<and> \<not> processed_upload_fails two_stats_env
   \<and> processed_blob (snd (main two_stats_env empty_store))
       = Some (Json (JArr [example_processed, second_processed]))
   \<and> list_all (\<lambda>x. is_num (avg_placement x)) [example_processed, second_processed]
   \<and> sorted (map (\<lambda>x. num_val (avg_placement x)) [example_processed, second_processed])"
proof -
  have m: "main two_stats_env empty_store = (Returned_None, snd (main two_stats_env empty_store))"
    using main_two_stats(1) by (simp add: prod_eq_iff)
  have f: "\<not> processed_upload_fails two_stats_env"
    by (simp add: two_stats_env_def example_env_def)
  have n: "list_all (\<lambda>x. is_num (avg_placement x)) [example_processed, second_processed]"
    by (simp add: avg_placement_def example_processed_def second_processed_def)
  from output_sorted_by_avg_placement[OF m f] main_two_stats(2) n
  have "sorted (map (\<lambda>x. num_val (avg_placement x)) [example_processed, second_processed])"
    by auto
  with main_two_stats f n show ?thesis by simp
qed

section \<open>Two runs on the same data\<close>

text \<open>
  Each step reads of the world only the cache blob: from two worlds with the same
  cache blob it gives the same result and leaves the same cache blob.
\<close>

lemma load_from_blob_agree:
  assumes "cards_blob w = cards_blob v"
  shows "fst (load_from_blob env w) = fst (load_from_blob env v)"
    and "cards_blob (snd (load_from_blob env w)) = cards_blob (snd (load_from_blob env v))"
    and "processed_blob (snd (load_from_blob env w)) = processed_blob w"
  using assms
  by (simp_all add: load_from_blob_def Let_def split: option.splits blob.splits sum.splits)

lemma download_from_api_agree:
  assumes "cards_blob w = cards_blob v"
  shows "fst (download_from_api env w) = fst (download_from_api env v)"
    and "cards_blob (snd (download_from_api env w)) = cards_blob (snd (download_from_api env v))"
  using assms
  by (simp_all add: download_from_api_def Let_def split: option.splits sum.splits)

lemma get_card_data_and_map_agree:
  assumes "cards_blob w = cards_blob v"
  shows "fst (get_card_data_and_map env force_update w)
           = fst (get_card_data_and_map env force_update v)"
    and "cards_blob (snd (get_card_data_and_map env force_update w))
           = cards_blob (snd (get_card_data_and_map env force_update v))"
    and "processed_blob (snd (get_card_data_and_map env force_update w)) = processed_blob w"
proof -
  obtain r w1 where lw: "load_from_blob env w = (r, w1)" by (cases "load_from_blob env w")
  obtain r' v1 where lv: "load_from_blob env v = (r', v1)" by (cases "load_from_blob env v")
  from load_from_blob_agree[OF assms, of env] lw lv
  have r: "r' = r" and c: "cards_blob w1 = cards_blob v1"
    and p: "processed_blob w1 = processed_blob w"
    by simp_all
  note d = download_from_api_agree[OF c, of env] download_from_api_agree[OF assms, of env]
  show "fst (get_card_data_and_map env force_update w)
           = fst (get_card_data_and_map env force_update v)"
    using assms lw lv r d by (cases r) (auto simp: get_card_data_and_map_def)
  show "cards_blob (snd (get_card_data_and_map env force_update w))
           = cards_blob (snd (get_card_data_and_map env force_update v))"
    using assms lw lv r c d by (cases r) (auto simp: get_card_data_and_map_def)
  show "processed_blob (snd (get_card_data_and_map env force_update w)) = processed_blob w"
    using lw p by (cases r) (auto simp: get_card_data_and_map_def)
qed

lemma refresh_if_missing_agree:
  assumes "cards_blob w = cards_blob v"
  shows "fst (refresh_if_missing env card_map was_updated stats w)
           = fst (refresh_if_missing env card_map was_updated stats v)"
    and "cards_blob (snd (refresh_if_missing env card_map was_updated stats w))
           = cards_blob (snd (refresh_if_missing env card_map was_updated stats v))"
    and "processed_blob (snd (refresh_if_missing env card_map was_updated stats w))
           = processed_blob w"
proof -
  let ?w = "logging Info Forcing_card_update w" and ?v = "logging Info Forcing_card_update v"
  have c: "cards_blob ?w = cards_blob ?v" using assms by simp
  obtain r w1 where gw: "get_card_data_and_map env True ?w = (r, w1)"
    by (cases "get_card_data_and_map env True ?w")
  obtain r' v1 where gv: "get_card_data_and_map env True ?v = (r', v1)"
    by (cases "get_card_data_and_map env True ?v")
  from get_card_data_and_map_agree[OF c, of env True] gw gv
  have r: "r' = r" and b: "cards_blob w1 = cards_blob v1"
    and p: "processed_blob w1 = processed_blob w"
    by simp_all
  show "fst (refresh_if_missing env card_map was_updated stats w)
           = fst (refresh_if_missing env card_map was_updated stats v)"
    using gw gv r
    by (auto simp: refresh_if_missing_def split: sum.splits option.splits prod.splits)
  show "cards_blob (snd (refresh_if_missing env card_map was_updated stats w))
           = cards_blob (snd (refresh_if_missing env card_map was_updated stats v))"
    using gw gv r b assms
    by (auto simp: refresh_if_missing_def split: sum.splits option.splits prod.splits)
  show "processed_blob (snd (refresh_if_missing env card_map was_updated stats w))
           = processed_blob w"
    using gw p
    by (auto simp: refresh_if_missing_def split: sum.splits option.splits prod.splits)
qed

lemma process_and_save_agree:
  assumes "cards_blob w = cards_blob v"
  shows "fst (process_and_save env card_map stats w) = fst (process_and_save env card_map stats v)"
    and "cards_blob (snd (process_and_save env card_map stats w))
           = cards_blob (snd (process_and_save env card_map stats v))"
    and "fst (process_and_save env card_map stats w) = Returned_None \<Longrightarrow>
         \<not> processed_upload_fails env \<Longrightarrow>
         processed_blob (snd (process_and_save env card_map stats w))
           = processed_blob (snd (process_and_save env card_map stats v))"
proof -
  show "fst (process_and_save env card_map stats w) = fst (process_and_save env card_map stats v)"
  proof (cases "py_iter stats")
    case (Inl e)
    then show ?thesis by (simp add: process_and_save_def)
  next
    case (Inr ts)
    show ?thesis
      unfolding process_and_save_char(1)[OF Inr]
      using process_trinkets_fst[of card_map ts "[]" w v] by simp
  qed
  show "cards_blob (snd (process_and_save env card_map stats w))
           = cards_blob (snd (process_and_save env card_map stats v))"
  proof (cases "py_iter stats")
    case (Inl e)
    then show ?thesis using assms by (simp add: process_and_save_def)
  next
    case (Inr ts)
    show ?thesis unfolding process_and_save_char(3)[OF Inr] by (rule assms)
  qed
  show "processed_blob (snd (process_and_save env card_map stats w))
           = processed_blob (snd (process_and_save env card_map stats v))"
    if ok: "fst (process_and_save env card_map stats w) = Returned_None"
      and up: "\<not> processed_upload_fails env"
  proof (cases "py_iter stats")
    case (Inl e)
    with ok show ?thesis by (simp add: process_and_save_def)
  next
    case (Inr ts)
    from ok show ?thesis
      unfolding process_and_save_char(1,2)[OF Inr]
      using process_trinkets_fst[of card_map ts "[]" w v] up
      by (auto split: sum.splits)
  qed
qed

lemma join_stats_agree:
  assumes "cards_blob w = cards_blob v"
  shows "fst (join_stats env card_map was_updated w) = fst (join_stats env card_map was_updated v)"
    and "cards_blob (snd (join_stats env card_map was_updated w))
           = cards_blob (snd (join_stats env card_map was_updated v))"
    and "fst (join_stats env card_map was_updated w) = Returned_None \<Longrightarrow>
         \<not> processed_upload_fails env \<Longrightarrow>
         processed_blob (snd (join_stats env card_map was_updated w))
           = processed_blob (snd (join_stats env card_map was_updated v))"
proof -
  obtain s w1 where gw: "get_trinket_stats env w = (s, w1)" by (cases "get_trinket_stats env w")
  obtain s' v1 where gv: "get_trinket_stats env v = (s', v1)" by (cases "get_trinket_stats env v")
  from get_trinket_stats_fields[of env w] get_trinket_stats_fields[of env v] gw gv assms
  have s: "s' = s" and c1: "cards_blob w1 = cards_blob v1" by simp_all
  have goal: "fst (join_stats env card_map was_updated w)
                = fst (join_stats env card_map was_updated v)
      \<and> cards_blob (snd (join_stats env card_map was_updated w))
                = cards_blob (snd (join_stats env card_map was_updated v))
      \<and> (fst (join_stats env card_map was_updated w) = Returned_None
            \<and> \<not> processed_upload_fails env
          \<longrightarrow> processed_blob (snd (join_stats env card_map was_updated w))
                = processed_blob (snd (join_stats env card_map was_updated v)))"
  proof (cases s)
    case None
    then show ?thesis using gw gv s c1 by (simp add: join_stats_def)
  next
    case (Some stats)
    show ?thesis
    proof (cases "truthy stats")
      case False
      then show ?thesis using gw gv s c1 Some by (simp add: join_stats_def)
    next
      case True
      obtain r w2 where rw: "refresh_if_missing env card_map was_updated stats w1 = (r, w2)"
        by (cases "refresh_if_missing env card_map was_updated stats w1")
      obtain r' v2 where rv: "refresh_if_missing env card_map was_updated stats v1 = (r', v2)"
        by (cases "refresh_if_missing env card_map was_updated stats v1")
      from refresh_if_missing_agree(1,2)[OF c1, of env card_map was_updated stats] rw rv
      have r: "r' = r" and c2: "cards_blob w2 = cards_blob v2" by simp_all
      have jw: "join_stats env card_map was_updated w
                  = (case r of Inl out \<Rightarrow> (out, w2)
                     | Inr cm \<Rightarrow> process_and_save env cm stats w2)"
        using gw Some True rw by (simp add: join_stats_def split: sum.splits)
      have jv: "join_stats env card_map was_updated v
                  = (case r of Inl out \<Rightarrow> (out, v2)
                     | Inr cm \<Rightarrow> process_and_save env cm stats v2)"
        using gv s Some True rv r by (simp add: join_stats_def split: sum.splits)
      show ?thesis
      proof (cases r)
        case (Inl out)
        have "out \<noteq> Returned_None"
          using rw Inl
          by (auto simp: refresh_if_missing_def split: sum.splits option.splits prod.splits if_splits)
        then show ?thesis unfolding jw jv using Inl c2 by simp
      next
        case (Inr cm)
        show ?thesis unfolding jw jv using Inr process_and_save_agree[OF c2, of env cm stats]
          by simp
      qed
    qed
  qed
  from goal show "fst (join_stats env card_map was_updated w)
                = fst (join_stats env card_map was_updated v)"
    and "cards_blob (snd (join_stats env card_map was_updated w))
           = cards_blob (snd (join_stats env card_map was_updated v))"
    and "fst (join_stats env card_map was_updated w) = Returned_None \<Longrightarrow>
         \<not> processed_upload_fails env \<Longrightarrow>
         processed_blob (snd (join_stats env card_map was_updated w))
           = processed_blob (snd (join_stats env card_map was_updated v))"
    by simp_all
qed

lemma runs_agree:
  assumes "cards_blob w = cards_blob v"
  shows "fst (main env w) = fst (main env v)
       \<and> cards_blob (snd (main env w)) = cards_blob (snd (main env v))
       \<and> (fst (main env w) = Returned_None \<and> \<not> processed_upload_fails env
            \<longrightarrow> processed_blob (snd (main env w)) = processed_blob (snd (main env v)))"
proof -
  let ?w = "log_start env w" and ?v = "log_start env v"
  have c: "cards_blob ?w = cards_blob ?v" using assms by (simp add: log_start_def)
  obtain r w2 where gw: "get_card_data_and_map env False ?w = (r, w2)"
    by (cases "get_card_data_and_map env False ?w")
  obtain r' v2 where gv: "get_card_data_and_map env False ?v = (r', v2)"
    by (cases "get_card_data_and_map env False ?v")
  from get_card_data_and_map_agree(1,2)[OF c, of env False] gw gv
  have r: "r' = r" and c2: "cards_blob w2 = cards_blob v2" by simp_all
  show ?thesis
  proof (cases "connection_string env = None \<or> connection_string env = Some []
                  \<or> connect_fails env")
    case True
    then show ?thesis using assms by (auto simp: main_def Let_def log_start_def)
  next
    case cfg: False
    show ?thesis
    proof (cases r)
      case (Inl e)
      then show ?thesis using cfg gw gv r c2 by (auto simp: main_def Let_def)
    next
      case (Inr p)
      obtain cm u where p: "p = (cm, u)" by (cases p)
      show ?thesis
      proof (cases cm)
        case None
        then show ?thesis using cfg gw gv r c2 Inr p by (auto simp: main_def Let_def)
      next
        case (Some card_map)
        show ?thesis
        proof (cases "card_map = []")
          case True
          then show ?thesis using cfg gw gv r c2 Inr p Some by (auto simp: main_def Let_def)
        next
          case False
          have "main env w = join_stats env card_map u w2"
              "main env v = join_stats env card_map u v2"
            using cfg gw gv r Inr p Some False by (auto simp: main_def Let_def)
          then show ?thesis using join_stats_agree[OF c2, of env card_map u] by simp
        qed
      qed
    qed
  qed
qed

text \<open>The second of two runs in a row. What the first run leaves in the cache blob is
  either what it found there or the remote payload its catalog was built from.\<close>

lemma download_from_api_Some:
  assumes "download_from_api env w = (Inr (Some card_map, u), w')"
  shows "u \<and> (\<exists>card_data. cards_response env = Some card_data \<and> \<not> cards_upload_fails env
           \<and> build_card_map card_data = Inr card_map
           \<and> cards_blob w' = Some (Json card_data))"
  using assms
  by (auto simp: download_from_api_def Let_def split: option.splits sum.splits if_splits)

lemma get_card_data_and_map_Some:
  assumes "get_card_data_and_map env force_update w = (Inr (Some card_map, u), w')"
  shows "(\<not> u \<and> cards_blob w' = cards_blob w)
       \<or> (u \<and> (\<exists>card_data. cards_response env = Some card_data \<and> \<not> cards_upload_fails env
             \<and> build_card_map card_data = Inr card_map
             \<and> cards_blob w' = Some (Json card_data)))"
proof (cases "\<not> force_update \<and> cards_blob w \<noteq> None")
  case False
  with assms have "download_from_api env w = (Inr (Some card_map, u), w')"
    by (auto simp: get_card_data_and_map_def)
  from download_from_api_Some[OF this] show ?thesis by simp
next
  case True
  obtain r w1 where l: "load_from_blob env w = (r, w1)" by (cases "load_from_blob env w")
  show ?thesis
  proof (cases r)
    case None
    with True l assms have "download_from_api env w1 = (Inr (Some card_map, u), w')"
      by (simp add: get_card_data_and_map_def)
    from download_from_api_Some[OF this] show ?thesis by simp
  next
    case (Some m)
    with True l assms have "w' = w1" "\<not> u" by (simp_all add: get_card_data_and_map_def)
    moreover from load_from_blob_Some[OF l[unfolded Some]] have "cards_blob w1 = cards_blob w"
      by auto
    ultimately show ?thesis by simp
  qed
qed

lemma process_and_save_any_world:
  "fst (process_and_save env card_map stats w) = fst (process_and_save env card_map stats v)"
  "fst (process_and_save env card_map stats w) = Returned_None \<Longrightarrow>
   \<not> processed_upload_fails env \<Longrightarrow>
   processed_blob (snd (process_and_save env card_map stats w))
     = processed_blob (snd (process_and_save env card_map stats v))"
proof -
  show "fst (process_and_save env card_map stats w) = fst (process_and_save env card_map stats v)"
  proof (cases "py_iter stats")
    case (Inl e)
    then show ?thesis by (simp add: process_and_save_def)
  next
    case (Inr ts)
    show ?thesis
      unfolding process_and_save_char(1)[OF Inr]
      using process_trinkets_fst[of card_map ts "[]" w v] by simp
  qed
  show "processed_blob (snd (process_and_save env card_map stats w))
           = processed_blob (snd (process_and_save env card_map stats v))"
    if ok: "fst (process_and_save env card_map stats w) = Returned_None"
      and up: "\<not> processed_upload_fails env"
  proof (cases "py_iter stats")
    case (Inl e)
    with ok show ?thesis by (simp add: process_and_save_def)
  next
    case (Inr ts)
    from ok show ?thesis
      unfolding process_and_save_char(1,2)[OF Inr]
      using process_trinkets_fst[of card_map ts "[]" w v] up
      by (auto split: sum.splits)
  qed
qed

text \<open>If the loop gets through the records, so does the test of line 88.\<close>

lemma any_missing_no_raise:
  "fst (process_trinkets card_map ts acc w) = Inr ps \<Longrightarrow> \<exists>b. any_missing card_map ts = Inr b"
proof (induction ts arbitrary: acc w)
  case Nil
  show ?case by (intro exI[of _ False]) simp
next
  case (Cons t ts)
  from Cons.prems obtain dbf_id card_info where f: "find_card card_map t = Inr (dbf_id, card_info)"
    by (cases "find_card card_map t") auto
  then obtain v k where v: "dict_get t ''trinket_dbf_id'' = Inr v"
    and k: "hkey_of (none_to_null v) = Inr k"
    by (auto simp: find_card_def and_then_def split: sum.splits)
  have "\<exists>acc' w'. fst (process_trinkets card_map ts acc' w') = Inr ps"
  proof (cases "truthy card_info")
    case True
    with Cons.prems f show ?thesis
      by (cases "combined_data card_info t dbf_id") auto
  next
    case False
    with Cons.prems f show ?thesis by auto
  qed
  then obtain b where "any_missing card_map ts = Inr b" using Cons.IH by blast
  then show ?case using v k by (auto simp: and_then_def)
qed

lemma missing_trinkets_exist_no_raise:
  assumes "fst (process_and_save env card_map stats w) = Returned_None"
  shows "\<exists>b. missing_trinkets_exist card_map stats = Inr b"
proof (cases "py_iter stats")
  case (Inl e)
  with assms show ?thesis by (simp add: process_and_save_def)
next
  case (Inr ts)
  from assms obtain ps where "fst (process_trinkets card_map ts [] w) = Inr ps"
    unfolding process_and_save_char(1)[OF Inr] by (auto split: sum.splits)
  from any_missing_no_raise[OF this] Inr show ?thesis
    by (simp add: missing_trinkets_exist_def and_then_def)
qed

text \<open>What a run that reaches the end of \<open>main\<close> went through.\<close>

lemma main_Returned_None_char:
  assumes "main env w = (Returned_None, w1)"
  shows "\<exists>card_map stats w'. card_map \<noteq> []
           \<and> stats_response env = Some stats \<and> truthy stats
           \<and> connection_string env \<noteq> None \<and> connection_string env \<noteq> Some []
           \<and> \<not> connect_fails env
           \<and> process_and_save env card_map stats w' = (Returned_None, w1)
           \<and> (cards_blob w1 = cards_blob w
                \<or> (\<exists>card_data. cards_response env = Some card_data
                     \<and> \<not> cards_upload_fails env
                     \<and> build_card_map card_data = Inr card_map
                     \<and> cards_blob w1 = Some (Json card_data)))"
proof -
  let ?w = "log_start env w"
  have cfg: "connection_string env \<noteq> None" "connection_string env \<noteq> Some []"
      "\<not> connect_fails env"
    using assms by (auto simp: main_def Let_def split: if_splits)
  obtain r w2 where g: "get_card_data_and_map env False ?w = (r, w2)"
    by (cases "get_card_data_and_map env False ?w")
  from assms cfg g obtain m0 u where r: "r = Inr (Some m0, u)" and ne: "m0 \<noteq> []"
    and j: "join_stats env m0 u w2 = (Returned_None, w1)"
    by (auto simp: main_def Let_def split: sum.splits option.splits if_splits)
  have c0: "cards_blob ?w = cards_blob w" by (simp add: log_start_def)
  note l = get_card_data_and_map_Some[OF g[unfolded r], unfolded c0]
  obtain s w3 where t: "get_trinket_stats env w2 = (s, w3)" by (cases "get_trinket_stats env w2")
  with get_trinket_stats_fields[of env w2]
  have s: "s = stats_response env" and c3: "cards_blob w3 = cards_blob w2" by simp_all
  from j t obtain stats where st: "s = Some stats" and tr: "truthy stats"
    by (auto simp: join_stats_def split: option.splits if_splits)
  obtain q w4 where rf: "refresh_if_missing env m0 u stats w3 = (q, w4)"
    by (cases "refresh_if_missing env m0 u stats w3")
  from j t st tr rf obtain cm where q: "q = Inr cm"
    and ps: "process_and_save env cm stats w4 = (Returned_None, w1)"
    by (cases q)
       (auto simp: join_stats_def refresh_if_missing_def
             split: sum.splits option.splits prod.splits if_splits)
  have c1: "cards_blob w1 = cards_blob w4"
  proof (cases "py_iter stats")
    case (Inl e)
    with ps show ?thesis by (simp add: process_and_save_def)
  next
    case (Inr ts)
    from process_and_save_char(3)[OF Inr, of env cm w4] ps show ?thesis by simp
  qed
  have "cm \<noteq> [] \<and> (cards_blob w4 = cards_blob w
           \<or> (\<exists>card_data. cards_response env = Some card_data \<and> \<not> cards_upload_fails env
                 \<and> build_card_map card_data = Inr cm \<and> cards_blob w4 = Some (Json card_data)))"
  proof (cases "cm = m0 \<and> w4 = w3")
    case True
    with l c3 ne show ?thesis by auto
  next
    case False
    with rf q obtain u' where
      f: "get_card_data_and_map env True (logging Info Forcing_card_update w3)
            = (Inr (Some cm, u'), w4)" and "cm \<noteq> []"
      by (auto simp: refresh_if_missing_def
               split: sum.splits option.splits prod.splits if_splits)
    moreover from f have "download_from_api env (logging Info Forcing_card_update w3)
       = (Inr (Some cm, u'), w4)"
      by (simp add: get_card_data_and_map_forced)
    from download_from_api_Some[OF this] have "\<exists>card_data. cards_response env = Some card_data
        \<and> \<not> cards_upload_fails env
        \<and> build_card_map card_data = Inr cm \<and> cards_blob w4 = Some (Json card_data)"
      by simp
    ultimately show ?thesis by simp
  qed
  moreover have "stats_response env = Some stats" using s st by simp
  ultimately show ?thesis
    using cfg tr ps c1 by (intro exI[of _ cm] exI[of _ stats] exI[of _ w4]) auto
qed

text \<open>A run that finds in the cache the payload the remote source gives.\<close>

lemma main_on_cached_remote_payload:
  assumes "connection_string env \<noteq> None" and "connection_string env \<noteq> Some []"
      and "\<not> connect_fails env"
      and "cards_blob v = Some (Json card_data)"
      and "cards_response env = Some card_data" and "\<not> cards_upload_fails env"
      and "build_card_map card_data = Inr card_map" and "card_map \<noteq> []"
      and "stats_response env = Some stats" and "truthy stats"
      and "missing_trinkets_exist card_map stats = Inr b"
  shows "\<exists>v3. main env v = process_and_save env card_map stats v3"
proof -
  let ?v = "log_start env v"
  have c: "cards_blob ?v = Some (Json card_data)" using assms(4) by (simp add: log_start_def)
  have d: "\<exists>x. download_from_api env x0 = (Inr (Some card_map, True), x)" for x0
    using assms(5,6,7) by (simp add: download_from_api_def Let_def)
  have "\<exists>u v2. get_card_data_and_map env False ?v = (Inr (Some card_map, u), v2)"
  proof (cases "blob_read_fails env")
    case True
    then obtain x where "load_from_blob env ?v = (None, x)"
      by (simp add: load_from_blob_def Let_def)
    with c d[of x] show ?thesis by (auto simp: get_card_data_and_map_def)
  next
    case False
    from load_from_blob_hit[OF c False assms(7)] c show ?thesis
      by (auto simp: get_card_data_and_map_def)
  qed
  then obtain u v2 where g: "get_card_data_and_map env False ?v = (Inr (Some card_map, u), v2)"
    by blast
  obtain v3 where t: "get_trinket_stats env v2 = (Some stats, v3)"
    using assms(9) get_trinket_stats_fields(1)[of env v2]
    by (cases "get_trinket_stats env v2") simp
  have m: "main env v = join_stats env card_map u v2"
    using assms(1,2,3,8) g by (auto simp: main_def Let_def)
  have "\<exists>v4. refresh_if_missing env card_map u stats v3 = (Inr card_map, v4)"
  proof (cases "b \<and> \<not> u")
    case False
    then show ?thesis using assms(11) by (auto simp: refresh_if_missing_def)
  next
    case True
    from d[of "logging Info Forcing_card_update v3"] True assms(8,11) show ?thesis
      by (auto simp: refresh_if_missing_def get_card_data_and_map_forced)
  qed
  then obtain v4 where "refresh_if_missing env card_map u stats v3 = (Inr card_map, v4)"
    by blast
  with m t assms(10) show ?thesis by (auto simp: join_stats_def)
qed

lemma second_run:
  assumes "fst (main env w) = Returned_None" and "\<not> processed_upload_fails env"
  shows "fst (main env (snd (main env w))) = Returned_None
       \<and> processed_blob (snd (main env (snd (main env w)))) = processed_blob (snd (main env w))"
proof -
  let ?w1 = "snd (main env w)"
  have m: "main env w = (Returned_None, ?w1)" using assms(1) by (simp add: prod_eq_iff)
  from main_Returned_None_char[OF m] obtain card_map stats w'
    where ne: "card_map \<noteq> []"
      and st: "stats_response env = Some stats" "truthy stats"
      and cfg: "connection_string env \<noteq> None" "connection_string env \<noteq> Some []"
        "\<not> connect_fails env"
      and ps: "process_and_save env card_map stats w' = (Returned_None, ?w1)"
      and cb: "cards_blob ?w1 = cards_blob w
                \<or> (\<exists>card_data. cards_response env = Some card_data
                     \<and> \<not> cards_upload_fails env
                     \<and> build_card_map card_data = Inr card_map
                     \<and> cards_blob ?w1 = Some (Json card_data))"
    by blast
  show ?thesis
  proof (cases "cards_blob ?w1 = cards_blob w")
    case True
    have "fst (main env w) = fst (main env ?w1)
       \<and> cards_blob (snd (main env w)) = cards_blob (snd (main env ?w1))
       \<and> (fst (main env w) = Returned_None \<and> \<not> processed_upload_fails env
            \<longrightarrow> processed_blob (snd (main env w)) = processed_blob (snd (main env ?w1)))"
      by (rule runs_agree[OF True[symmetric]])
    with assms show ?thesis by metis
  next
    case False
    with cb obtain card_data where cd: "cards_response env = Some card_data"
        "\<not> cards_upload_fails env" "build_card_map card_data = Inr card_map"
        "cards_blob ?w1 = Some (Json card_data)"
      by blast
    from ps have ok: "fst (process_and_save env card_map stats w') = Returned_None" by simp
    from missing_trinkets_exist_no_raise[OF ok] obtain b
      where b: "missing_trinkets_exist card_map stats = Inr b" by blast
    from main_on_cached_remote_payload[OF cfg cd(4) cd(1,2,3) ne st b] obtain v3
      where m2: "main env ?w1 = process_and_save env card_map stats v3" by blast
    have e1: "fst (process_and_save env card_map stats v3) = Returned_None"
      using process_and_save_any_world(1)[of env card_map stats w' v3] ok by simp
    have e2: "processed_blob (snd (process_and_save env card_map stats v3))
                = processed_blob (snd (process_and_save env card_map stats w'))"
      using process_and_save_any_world(2)[OF ok assms(2), of v3] by simp
    have e3: "snd (process_and_save env card_map stats w') = ?w1"
      by (simp only: ps snd_conv)
    show ?thesis by (simp only: m2 e1 e2 e3 simp_thms)
  qed
qed

text \<open>
  Claim C9. Two runs in the same surroundings (the same answers of the remote sources
  and of the blob store) that start with the same cache blob end in the same way and
  leave the same cache blob; when they reach the end of \<open>main\<close> and the write of the
  result succeeds, they leave the same document in the result blob. The log so far and
  the old content of the result blob play no part. And a run that starts where such a
  run has ended, in the same surroundings, reaches the end of \<open>main\<close> too and writes the
  same document again, also when the first run has replaced the cache blob. The document
  is the list after the sort, which \<open>json.dumps\<close> turns into bytes; the same list gives
  the same bytes.
\<close>

theorem same_data_same_output:
  "(cards_blob w = cards_blob v \<longrightarrow>
      fst (main env w) = fst (main env v)
    \<and> cards_blob (snd (main env w)) = cards_blob (snd (main env v))
    \<and> (fst (main env w) = Returned_None \<and> \<not> processed_upload_fails env
         \<longrightarrow> processed_blob (snd (main env w)) = processed_blob (snd (main env v))))
   \<and> (fst (main env w) = Returned_None \<and> \<not> processed_upload_fails env \<longrightarrow>
        fst (main env (snd (main env w))) = Returned_None
      \<and> processed_blob (snd (main env (snd (main env w)))) = processed_blob (snd (main env w)))"
  using runs_agree[of w v env] second_run[of env w] by blast

theorem same_data_same_output_witness:
  "cards_blob (empty_store\<lparr>processed_blob := Some Malformed, trace := [Log Info Timer_past_due]\<rparr>)
     = cards_blob empty_store
   \<and> fst (main two_stats_env
            (empty_store\<lparr>processed_blob := Some Malformed, trace := [Log Info Timer_past_due]\<rparr>))
       = Returned_None
   \<and> processed_blob (snd (main two_stats_env
            (empty_store\<lparr>processed_blob := Some Malformed, trace := [Log Info Timer_past_due]\<rparr>)))
       = Some (Json (JArr [example_processed, second_processed]))
   \<and> fst (main two_stats_env (snd (main two_stats_env empty_store))) = Returned_None
   \<and> processed_blob (snd (main two_stats_env (snd (main two_stats_env empty_store))))
       = Some (Json (JArr [example_processed, second_processed]))"
proof -
  let ?v = "empty_store\<lparr>processed_blob := Some Malformed, trace := [Log Info Timer_past_due]\<rparr>"
  have c: "cards_blob empty_store = cards_blob ?v" by simp
  have f: "\<not> processed_upload_fails two_stats_env"
    by (simp add: two_stats_env_def example_env_def)
  note T = same_data_same_output[of empty_store ?v two_stats_env]
  note ok = main_two_stats(1)
  from T c ok f have a: "fst (main two_stats_env ?v) = Returned_None"
    by metis
  from T c ok f have b: "processed_blob (snd (main two_stats_env ?v))
      = processed_blob (snd (main two_stats_env empty_store))"
    by metis
  from T ok f have d: "fst (main two_stats_env (snd (main two_stats_env empty_store)))
      = Returned_None"
    by blast
  from T ok f have e: "processed_blob (snd (main two_stats_env (snd (main two_stats_env empty_store))))
      = processed_blob (snd (main two_stats_env empty_store))"
    by blast
  from a b d e c show ?thesis by (simp only: main_two_stats(2) simp_thms)
qed

end
